theory Spec2Isabelle
  imports Main
begin

section \<open>JavaScript values the scheduler computes with\<close>

text \<open>
  The scheduler of \<^verbatim>\<open>scheduler.js\<close> works on JavaScript strings, numbers and
  \<^verbatim>\<open>Date\<close> objects. Strings are modelled as \<^typ>\<open>string\<close> (8-bit characters),
  the integral numbers the scheduler counts with as \<^typ>\<open>int\<close> and \<^typ>\<open>nat\<close>,
  \<^verbatim>\<open>NaN\<close> as \<^const>\<open>None\<close>. A \<^verbatim>\<open>Date\<close> that the
  scheduler handles always stands at local midnight, so it is modelled by its local calendar
  fields; the range limit of JavaScript time values (about 275000 years around 1970) is not
  modelled.
\<close>

subsection \<open>Numbers as text\<close>

definition digit_char :: "nat \<Rightarrow> char" where
  "digit_char n = ''0123456789'' ! n"

text \<open>The decimal digits of a number that is not negative.\<close>

function show_digits :: "int \<Rightarrow> string" where
  "show_digits i =
     (if i < 10 then [digit_char (nat i)]
      else show_digits (i div 10) @ [digit_char (nat (i mod 10))])"
  by pat_completeness auto
termination
  by (relation "measure nat") auto

declare show_digits.simps [simp del]

definition show_int :: "int \<Rightarrow> string" where
  "show_int i = (if i < 0 then CHR ''-'' # show_digits (- i) else show_digits i)"

definition show_nat :: "nat \<Rightarrow> string" where
  "show_nat n = show_digits (int n)"

text \<open>\<^verbatim>\<open>String(x).padStart(2, '0')\<close>\<close>

definition padStart2 :: "string \<Rightarrow> string" where
  "padStart2 s = replicate (2 - length s) CHR ''0'' @ s"

definition is_digit :: "char \<Rightarrow> bool" where
  "is_digit c = (c \<in> set ''0123456789'')"

definition is_hexdigit :: "char \<Rightarrow> bool" where
  "is_hexdigit c = (c \<in> set ''0123456789abcdefABCDEF'')"

definition digit_val :: "char \<Rightarrow> int" where
  "digit_val c =
     (let n = (of_char c :: int)
      in if 97 \<le> n then n - 87 else if 65 \<le> n then n - 55 else n - 48)"

definition digits_value :: "int \<Rightarrow> string \<Rightarrow> int" where
  "digits_value radix ds = foldl (\<lambda>acc c. acc * radix + digit_val c) 0 ds"

definition js_whitespace :: "char \<Rightarrow> bool" where
  "js_whitespace c = ((of_char c :: nat) \<in> {9, 10, 11, 12, 13, 32, 160})"

text \<open>
  \<^verbatim>\<open>parseInt(s)\<close> without a radix: leading white space is skipped, one sign is
  read, a \<^verbatim>\<open>0x\<close> prefix selects base 16, the longest prefix of digits is the value
  and no digit at all gives \<^verbatim>\<open>NaN\<close>.
\<close>

definition parseInt :: "string \<Rightarrow> int option" where
  "parseInt s =
     (let s1 = dropWhile js_whitespace s;
          neg = (s1 \<noteq> [] \<and> hd s1 = CHR ''-'');
          s2 = (if s1 \<noteq> [] \<and> (hd s1 = CHR ''-'' \<or> hd s1 = CHR ''+'') then tl s1 else s1);
          hex = (2 \<le> length s2 \<and> s2 ! 0 = CHR ''0'' \<and> (s2 ! 1 = CHR ''x'' \<or> s2 ! 1 = CHR ''X''));
          body = (if hex then takeWhile is_hexdigit (drop 2 s2) else takeWhile is_digit s2);
          v = digits_value (if hex then 16 else 10) body
      in if body = [] then None else Some (if neg then - v else v))"

text \<open>\<^verbatim>\<open>s.split(c)\<close> for a one-character separator.\<close>

fun split_on :: "char \<Rightarrow> string \<Rightarrow> string list" where
  "split_on c [] = [[]]"
| "split_on c (x # xs) =
     (if x = c then [] # split_on c xs
      else (case split_on c xs of [] \<Rightarrow> [[x]] | p # ps \<Rightarrow> (x # p) # ps))"

text \<open>\<^verbatim>\<open>s.toUpperCase()\<close> on the ASCII letters.\<close>

definition toUpperChar :: "char \<Rightarrow> char" where
  "toUpperChar c =
     (let n = (of_char c :: nat) in if 97 \<le> n \<and> n \<le> 122 then char_of (n - 32) else c)"

definition toUpperCase :: "string \<Rightarrow> string" where
  "toUpperCase s = map toUpperChar s"

text \<open>\<^verbatim>\<open>xs.join(sep)\<close>\<close>

fun join :: "string \<Rightarrow> string list \<Rightarrow> string" where
  "join sep [] = []"
| "join sep [x] = x"
| "join sep (x # y # ys) = x @ sep @ join sep (y # ys)"

text \<open>
  \<^verbatim>\<open>xs.sort(cmp)\<close>: a stable sort by a comparator whose sign orders two elements
  (a \<^verbatim>\<open>NaN\<close> result counts as 0).
\<close>

fun insertBy :: "('a \<Rightarrow> 'a \<Rightarrow> int) \<Rightarrow> 'a \<Rightarrow> 'a list \<Rightarrow> 'a list" where
  "insertBy cmp x [] = [x]"
| "insertBy cmp x (y # ys) = (if cmp x y \<le> 0 then x # y # ys else y # insertBy cmp x ys)"

definition sortBy :: "('a \<Rightarrow> 'a \<Rightarrow> int) \<Rightarrow> 'a list \<Rightarrow> 'a list" where
  "sortBy cmp xs = foldr (insertBy cmp) xs []"

subsection \<open>Dates\<close>

datatype jsdate = InvalidDate | LocalDate (fullYear: int) (monthIndex: nat) (dayOfMonth: nat)

definition isLeapYear :: "int \<Rightarrow> bool" where
  "isLeapYear y = ((y mod 4 = 0 \<and> y mod 100 \<noteq> 0) \<or> y mod 400 = 0)"

definition daysInMonth :: "int \<Rightarrow> nat \<Rightarrow> nat" where
  "daysInMonth y m =
     (if m = 1 then (if isLeapYear y then 29 else 28)
      else if m = 3 \<or> m = 5 \<or> m = 8 \<or> m = 10 then 30 else 31)"


text \<open>The day after and the day before, as \<^verbatim>\<open>d.setDate(d.getDate() + 1)\<close>
  and \<^verbatim>\<open>d.setDate(d.getDate() - 1)\<close> give them.\<close>

fun next_day :: "jsdate \<Rightarrow> jsdate" where
  "next_day InvalidDate = InvalidDate"
| "next_day (LocalDate y m d) =
     (if d < daysInMonth y m then LocalDate y m (d + 1)
      else if m < 11 then LocalDate y (m + 1) 1
      else LocalDate (y + 1) 0 1)"

fun prev_day :: "jsdate \<Rightarrow> jsdate" where
  "prev_day InvalidDate = InvalidDate"
| "prev_day (LocalDate y m d) =
     (if 1 < d then LocalDate y m (d - 1)
      else if 0 < m then LocalDate y (m - 1) (daysInMonth y (m - 1))
      else LocalDate (y - 1) 11 31)"

text \<open>
  \<^verbatim>\<open>new Date(year, monthIndex, day)\<close>: a \<^verbatim>\<open>NaN\<close> argument gives an invalid
  date, a year from 0 to 99 means 1900 + year, and a month or day out of range overflows
  into the neighbouring months and years.
\<close>

definition newDate :: "int option \<Rightarrow> int option \<Rightarrow> int option \<Rightarrow> jsdate" where
  "newDate yo mo dayo =
     (case (yo, mo, dayo) of
        (Some y, Some m, Some d) \<Rightarrow>
          (let y1 = (if 0 \<le> y \<and> y \<le> 99 then 1900 + y else y);
               first = LocalDate (y1 + m div 12) (nat (m mod 12)) 1
           in if 1 \<le> d then (next_day ^^ nat (d - 1)) first
              else (prev_day ^^ nat (1 - d)) first)
      | _ \<Rightarrow> InvalidDate)"

fun getFullYear :: "jsdate \<Rightarrow> int option" where
  "getFullYear InvalidDate = None"
| "getFullYear (LocalDate y m d) = Some y"

fun getMonth :: "jsdate \<Rightarrow> nat option" where
  "getMonth InvalidDate = None"
| "getMonth (LocalDate y m d) = Some m"

fun getDate :: "jsdate \<Rightarrow> nat option" where
  "getDate InvalidDate = None"
| "getDate (LocalDate y m d) = Some d"

text \<open>Days since 1970-01-01, which was a Thursday.\<close>

definition days_from_civil :: "int \<Rightarrow> nat \<Rightarrow> nat \<Rightarrow> int" where
  "days_from_civil y m d =
     (let y1 = (if m < 2 then y - 1 else y);
          era = y1 div 400;
          yoe = y1 - era * 400;
          mp = (if m < 2 then int m + 10 else int m - 2);
          doy = (153 * mp + 2) div 5 + int d - 1;
          doe = yoe * 365 + yoe div 4 - yoe div 100 + doy
      in era * 146097 + doe - 719468)"

fun getDay :: "jsdate \<Rightarrow> nat option" where
  "getDay InvalidDate = None"
| "getDay (LocalDate y m d) = Some (nat ((days_from_civil y m d + 4) mod 7))"

text \<open>\<^verbatim>\<open>a <= b\<close> and the sign of \<^verbatim>\<open>a - b\<close> on dates; a comparison with an
  invalid date is false and a difference with one is \<^verbatim>\<open>NaN\<close>.\<close>

fun date_le :: "jsdate \<Rightarrow> jsdate \<Rightarrow> bool" where
  "date_le (LocalDate y m d) (LocalDate y' m' d') =
     (y < y' \<or> (y = y' \<and> (m < m' \<or> (m = m' \<and> d \<le> d'))))"
| "date_le _ _ = False"

fun date_diff_sign :: "jsdate \<Rightarrow> jsdate \<Rightarrow> int" where
  "date_diff_sign (LocalDate y m d) (LocalDate y' m' d') =
     (if LocalDate y m d = LocalDate y' m' d' then 0
      else if date_le (LocalDate y m d) (LocalDate y' m' d') then - 1 else 1)"
| "date_diff_sign _ _ = 0"


section \<open>The scheduler's data\<close>

record person =
  name :: string
  email :: string
  person_id :: string

record prefs =
  preferred :: "string set"
  notPreferred :: "string set"

datatype role = Primary | Secondary

record slot =
  slot_id :: string
  date :: jsdate
  dateStr :: string
  role :: role
  slotLabel :: string
  slotIndex :: nat
  isWeekend :: bool
  duration :: int
  assignedPerson :: "person option"
  warning :: "string option"
  cost :: "int option"

text \<open>The four keys of a load record and of the targets.\<close>

datatype shiftType = Weekday_primary | Weekend_primary | Weekday_secondary | Weekend_secondary

record load_rec =
  weekday_primary :: int
  weekend_primary :: int
  weekday_secondary :: int
  weekend_secondary :: int
  total_hours :: int

type_synonym load_map = "string \<rightharpoonup> load_rec"

record target =
  ttotal :: int
  tmin :: int
  tmax :: int

type_synonym targets = "shiftType \<Rightarrow> target"

record scheduler =
  people :: "person list"
  dateRangeStart :: "jsdate option"
  dateRangeEnd :: "jsdate option"
  preferences :: "string \<rightharpoonup> prefs"
  schedule :: "slot list"
  primaryCount :: nat
  secondaryCount :: nat

datatype error =
    PersonExists string
  | PersonNotFound string
  | NotEnoughPeople nat nat nat
  | DateRangeNotSet
  | CannotSchedule string
  | TypeError

text \<open>A date input of \<^verbatim>\<open>normalizeDate\<close>: a string or a \<^verbatim>\<open>Date\<close>.\<close>

datatype date_input = DateString string | DateObject jsdate

record person_report =
  r_name :: string
  r_email :: string
  weekdayPrimary :: int
  weekendPrimary :: int
  weekdaySecondary :: int
  weekendSecondary :: int
  totalHours :: int
  totalShifts :: nat
  preferredAssignments :: nat
  indifferentAssignments :: nat
  notPreferredAssignments :: nat

text \<open>The fairness report without its floating-point part (average load and score).\<close>

record report =
  byPerson :: "person_report list"
  summaryTotalShifts :: nat
  summaryTotalDays :: nat
  summaryWeekendDays :: nat

section \<open>Roster, range and preferences\<close>

definition newScheduler :: scheduler where
  "newScheduler =
     \<lparr>people = [], dateRangeStart = None, dateRangeEnd = None, preferences = Map.empty,
      schedule = [], primaryCount = 1, secondaryCount = 1\<rparr>"

definition setShiftCounts :: "scheduler \<Rightarrow> int \<Rightarrow> int \<Rightarrow> scheduler" where
  "setShiftCounts st p s =
     st\<lparr>primaryCount := nat (max 0 (min 10 p)), secondaryCount := nat (max 0 (min 10 s))\<rparr>"

text \<open>The random \<^verbatim>\<open>id\<close> of a new person is an argument.\<close>

definition addPerson :: "scheduler \<Rightarrow> string \<Rightarrow> string \<Rightarrow> string \<Rightarrow> error + scheduler" where
  "addPerson st nm em newId =
     (if find (\<lambda>p. email p = em) (people st) \<noteq> None then Inl (PersonExists em)
      else Inr (st\<lparr>people := people st @ [\<lparr>name = nm, email = em, person_id = newId\<rparr>],
                   preferences := (preferences st)(em \<mapsto> \<lparr>preferred = {}, notPreferred = {}\<rparr>)\<rparr>))"

text \<open>\<^verbatim>\<open>removePerson\<close> has no failing path; its result is a sum only so that
  it can be compared with the operations that do fail.\<close>

definition removePerson :: "scheduler \<Rightarrow> string \<Rightarrow> error + scheduler" where
  "removePerson st em =
     Inr (st\<lparr>people := filter (\<lambda>p. email p \<noteq> em) (people st),
             preferences := (preferences st)(em := None)\<rparr>)"

text \<open>
  \<^verbatim>\<open>parseLocalDate\<close>. A string of three parts separated by \<^verbatim>\<open>-\<close> is read with
  \<^verbatim>\<open>parseInt\<close>; any other string goes to the host's \<^verbatim>\<open>new Date(string)\<close>,
  whose result depends on the host and is the parameter \<open>hostParse\<close> (taken at local
  midnight).
\<close>

definition parseLocalDate :: "(string \<Rightarrow> jsdate) \<Rightarrow> date_input \<Rightarrow> jsdate" where
  "parseLocalDate hostParse inp =
     (case inp of
        DateObject d \<Rightarrow> d
      | DateString s \<Rightarrow>
          (case split_on CHR ''-'' s of
             [p0, p1, p2] \<Rightarrow>
               newDate (parseInt p0) (map_option (\<lambda>m. m - 1) (parseInt p1)) (parseInt p2)
           | _ \<Rightarrow> hostParse s))"

text \<open>The formatting half of \<^verbatim>\<open>normalizeDate\<close> (its last four lines).\<close>

definition formatDate :: "jsdate \<Rightarrow> string" where
  "formatDate d =
     (case d of
        InvalidDate \<Rightarrow> ''NaN-NaN-NaN''
      | LocalDate y m dd \<Rightarrow>
          show_int y @ ''-'' @ padStart2 (show_nat (m + 1)) @ ''-'' @ padStart2 (show_nat dd))"

definition normalizeDate :: "(string \<Rightarrow> jsdate) \<Rightarrow> date_input \<Rightarrow> string" where
  "normalizeDate hostParse inp =
     formatDate (case inp of
                   DateString s \<Rightarrow> parseLocalDate hostParse (DateString s)
                 | DateObject d \<Rightarrow> d)"

definition setDateRange :: "(string \<Rightarrow> jsdate) \<Rightarrow> scheduler \<Rightarrow> date_input \<Rightarrow> date_input \<Rightarrow> scheduler" where
  "setDateRange hostParse st startDate endDate =
     st\<lparr>dateRangeStart := Some (parseLocalDate hostParse startDate),
        dateRangeEnd := Some (parseLocalDate hostParse endDate)\<rparr>"

definition setPreferences ::
  "(string \<Rightarrow> jsdate) \<Rightarrow> scheduler \<Rightarrow> string \<Rightarrow> date_input list \<Rightarrow> date_input list \<Rightarrow> error + scheduler" where
  "setPreferences hostParse st em pref notPref =
     (if preferences st em = None then Inl (PersonNotFound em)
      else Inr (st\<lparr>preferences := (preferences st)(em \<mapsto>
                  \<lparr>preferred = set (map (normalizeDate hostParse) pref),
                   notPreferred = set (map (normalizeDate hostParse) notPref)\<rparr>)\<rparr>))"

section \<open>Dates and slots\<close>

text \<open>The loop of \<^verbatim>\<open>generateDates\<close>: from \<open>current\<close> up to \<open>endDate\<close>, a day at a time.\<close>

function generateDatesFrom :: "jsdate \<Rightarrow> jsdate \<Rightarrow> jsdate list" where
  "generateDatesFrom current endDate =
     (if date_le current endDate then current # generateDatesFrom (next_day current) endDate
      else [])"
  by pat_completeness auto
termination
proof (relation "measures [\<lambda>(c, e). nat (fullYear e + 1 - fullYear c),
                           \<lambda>(c, e). 12 - monthIndex c, \<lambda>(c, e). 32 - dayOfMonth c]", goal_cases)
  case 1
  show ?case by simp
next
  case (2 current endDate)
  then obtain y m d y' m' d'
    where c: "current = LocalDate y m d" and e: "endDate = LocalDate y' m' d'"
    by (cases current; cases endDate) auto
  have dim: "daysInMonth y m \<le> 31" by (simp add: daysInMonth_def)
  from 2 c e dim show ?case by auto
qed

declare generateDatesFrom.simps [simp del]

text \<open>\<^verbatim>\<open>generateDates\<close> is only reached once \<^verbatim>\<open>generateSchedule\<close> has found
  both ends of the range set.\<close>

definition generateDates :: "scheduler \<Rightarrow> jsdate list" where
  "generateDates st =
     (case (dateRangeStart st, dateRangeEnd st) of
        (Some s, Some e) \<Rightarrow> generateDatesFrom s e
      | _ \<Rightarrow> [])"

definition isWeekendNight :: "jsdate \<Rightarrow> bool" where
  "isWeekendNight d = (getDay d = Some 5 \<or> getDay d = Some 6)"

definition getDayName :: "jsdate \<Rightarrow> string option" where
  "getDayName d =
     map_option (\<lambda>n. [''Sunday'', ''Monday'', ''Tuesday'', ''Wednesday'', ''Thursday'',
                       ''Friday'', ''Saturday''] ! n) (getDay d)"

definition getSlotLabel :: "nat \<Rightarrow> string" where
  "getSlotLabel index = [char_of (97 + index)]"

definition roleName :: "role \<Rightarrow> string" where
  "roleName r = (case r of Primary \<Rightarrow> ''primary'' | Secondary \<Rightarrow> ''secondary'')"

text \<open>The body of the loop over the dates: the primary slots of the day, then the
  secondary ones.\<close>

definition daySlots :: "scheduler \<Rightarrow> jsdate \<Rightarrow> slot list" where
  "daySlots st d =
     (let isWe = isWeekendNight d; ds = formatDate d
      in map (\<lambda>i. \<lparr>slot_id = ds @ ''-primary-'' @ getSlotLabel i, date = d, dateStr = ds,
                    role = Primary, slotLabel = getSlotLabel i, slotIndex = i, isWeekend = isWe,
                    duration = (if isWe then 24 else 12), assignedPerson = None,
                    warning = None, cost = None\<rparr>) [0..<primaryCount st]
         @ map (\<lambda>i. \<lparr>slot_id = ds @ ''-secondary-'' @ getSlotLabel i, date = d, dateStr = ds,
                    role = Secondary, slotLabel = getSlotLabel i, slotIndex = i, isWeekend = isWe,
                    duration = 12, assignedPerson = None,
                    warning = None, cost = None\<rparr>) [0..<secondaryCount st])"

definition generateSlots :: "scheduler \<Rightarrow> slot list" where
  "generateSlots st = concat (map (daySlots st) (generateDates st))"

section \<open>Loads, targets and cost\<close>

definition getShiftTypeKey :: "slot \<Rightarrow> shiftType" where
  "getShiftTypeKey sl =
     (if isWeekend sl then (case role sl of Primary \<Rightarrow> Weekend_primary | Secondary \<Rightarrow> Weekend_secondary)
      else (case role sl of Primary \<Rightarrow> Weekday_primary | Secondary \<Rightarrow> Weekday_secondary))"

fun load_get :: "load_rec \<Rightarrow> shiftType \<Rightarrow> int" where
  "load_get l Weekday_primary = weekday_primary l"
| "load_get l Weekend_primary = weekend_primary l"
| "load_get l Weekday_secondary = weekday_secondary l"
| "load_get l Weekend_secondary = weekend_secondary l"

text \<open>\<^verbatim>\<open>load[key] += dc; load.total_hours += dh\<close>\<close>

fun load_add :: "load_rec \<Rightarrow> shiftType \<Rightarrow> int \<Rightarrow> int \<Rightarrow> load_rec" where
  "load_add l Weekday_primary dc dh =
     l\<lparr>weekday_primary := weekday_primary l + dc, total_hours := total_hours l + dh\<rparr>"
| "load_add l Weekend_primary dc dh =
     l\<lparr>weekend_primary := weekend_primary l + dc, total_hours := total_hours l + dh\<rparr>"
| "load_add l Weekday_secondary dc dh =
     l\<lparr>weekday_secondary := weekday_secondary l + dc, total_hours := total_hours l + dh\<rparr>"
| "load_add l Weekend_secondary dc dh =
     l\<lparr>weekend_secondary := weekend_secondary l + dc, total_hours := total_hours l + dh\<rparr>"

text \<open>The same update on the record that the map holds for an email; the callers have
  looked the record up before.\<close>

definition adjustLoad :: "load_map \<Rightarrow> string \<Rightarrow> shiftType \<Rightarrow> int \<Rightarrow> int \<Rightarrow> load_map" where
  "adjustLoad load em k dc dh =
     (case load em of None \<Rightarrow> load | Some l \<Rightarrow> load(em \<mapsto> load_add l k dc dh))"

definition initializeLoad :: "scheduler \<Rightarrow> load_map" where
  "initializeLoad st =
     fold (\<lambda>p m. m(email p \<mapsto> \<lparr>weekday_primary = 0, weekend_primary = 0, weekday_secondary = 0,
                               weekend_secondary = 0, total_hours = 0\<rparr>)) (people st) Map.empty"

text \<open>\<^verbatim>\<open>currentLoad.get(p.email)[key]\<close>, a \<^verbatim>\<open>TypeError\<close> without a record.\<close>

definition getCount :: "load_map \<Rightarrow> shiftType \<Rightarrow> person \<Rightarrow> error + int" where
  "getCount load k p = (case load (email p) of None \<Rightarrow> Inl TypeError | Some l \<Rightarrow> Inr (load_get l k))"

fun mapE :: "('a \<Rightarrow> error + 'b) \<Rightarrow> 'a list \<Rightarrow> error + 'b list" where
  "mapE f [] = Inr []"
| "mapE f (x # xs) =
     (case f x of
        Inl e \<Rightarrow> Inl e
      | Inr y \<Rightarrow> (case mapE f xs of Inl e \<Rightarrow> Inl e | Inr ys \<Rightarrow> Inr (y # ys)))"

text \<open>With an empty roster the quotients are \<^verbatim>\<open>NaN\<close> in JavaScript and 0 here;
  no slot is generated then, so no target is read.\<close>

definition mkTarget :: "int \<Rightarrow> int \<Rightarrow> target" where
  "mkTarget tot n = \<lparr>ttotal = tot, tmin = tot div n, tmax = - ((- tot) div n)\<rparr>"

definition calculateTargetShifts :: "scheduler \<Rightarrow> targets" where
  "calculateTargetShifts st =
     (let dates = generateDates st;
          weekdayCount = int (length (filter (\<lambda>d. \<not> isWeekendNight d) dates));
          weekendCount = int (length (filter isWeekendNight dates));
          n = int (length (people st))
      in (\<lambda>k. case k of
            Weekday_primary \<Rightarrow> mkTarget (weekdayCount * int (primaryCount st)) n
          | Weekend_primary \<Rightarrow> mkTarget (weekendCount * int (primaryCount st)) n
          | Weekday_secondary \<Rightarrow> mkTarget (weekdayCount * int (secondaryCount st)) n
          | Weekend_secondary \<Rightarrow> mkTarget (weekendCount * int (secondaryCount st)) n))"

definition heldBy :: "slot \<Rightarrow> string \<Rightarrow> bool" where
  "heldBy s em = (case assignedPerson s of None \<Rightarrow> False | Some q \<Rightarrow> email q = em)"

definition getSameDayShifts :: "scheduler \<Rightarrow> person \<Rightarrow> slot \<Rightarrow> slot list" where
  "getSameDayShifts st p sl =
     filter (\<lambda>s. heldBy s (email p) \<and> dateStr s = dateStr sl) (schedule st)"

definition canAssign :: "scheduler \<Rightarrow> person \<Rightarrow> slot \<Rightarrow> bool" where
  "canAssign st p sl =
     (case preferences st (email p) of
        None \<Rightarrow> True
      | Some pr \<Rightarrow> dateStr sl \<notin> notPreferred pr)"

definition isPreferred :: "scheduler \<Rightarrow> person \<Rightarrow> slot \<Rightarrow> bool" where
  "isPreferred st p sl =
     (case preferences st (email p) of None \<Rightarrow> False | Some pr \<Rightarrow> dateStr sl \<in> preferred pr)"

definition isNotPreferred :: "scheduler \<Rightarrow> person \<Rightarrow> slot \<Rightarrow> bool" where
  "isNotPreferred st p sl =
     (case preferences st (email p) of None \<Rightarrow> False | Some pr \<Rightarrow> dateStr sl \<in> notPreferred pr)"

definition calculateCost ::
  "scheduler \<Rightarrow> person \<Rightarrow> slot \<Rightarrow> load_map \<Rightarrow> targets option \<Rightarrow> error + int" where
  "calculateCost st p sl currentLoad tgs =
     (case currentLoad (email p) of
        None \<Rightarrow> Inl TypeError
      | Some load \<Rightarrow>
          (let shiftType = getShiftTypeKey sl;
               personCount = load_get load shiftType;
               c1 = (case tgs of
                       None \<Rightarrow> 0
                     | Some t \<Rightarrow>
                         (if tmax (t shiftType) \<le> personCount then 100000
                          else personCount * 1000
                               + (if tmin (t shiftType) \<le> personCount \<and> 0 < tmin (t shiftType)
                                  then 500 else 0)));
               c2 = (if isPreferred st p sl then c1 - 5
                     else if isNotPreferred st p sl then c1 + 10 else c1);
               c3 = (if isWeekend sl then c2 + 2 else c2);
               c4 = (if getSameDayShifts st p sl \<noteq> [] then c3 + 1000000 else c3)
           in Inr c4))"


section \<open>The initial fill\<close>

text \<open>\<^verbatim>\<open>slots.sort(...)\<close>: by date, then the harder slots of a day first.\<close>

definition slotDifficulty :: "slot \<Rightarrow> int" where
  "slotDifficulty s = (if isWeekend s then 10 else 0) + (if role s = Primary then 5 else 0)"

definition slotCompare :: "slot \<Rightarrow> slot \<Rightarrow> int" where
  "slotCompare a b =
     (if dateStr a \<noteq> dateStr b then date_diff_sign (date a) (date b)
      else slotDifficulty b - slotDifficulty a)"

definition prefCost :: "scheduler \<Rightarrow> person \<Rightarrow> slot \<Rightarrow> int" where
  "prefCost st p sl =
     (if isPreferred st p sl then - 5 else if isNotPreferred st p sl then 10 else 0)"

text \<open>The comparator of the ranking: preference cost, then rotated index
  (\<^verbatim>\<open>NaN\<close> when the date string has no number in it).\<close>

definition rankCompare :: "person \<times> int \<times> int option \<Rightarrow> person \<times> int \<times> int option \<Rightarrow> int" where
  "rankCompare a b =
     (if fst (snd a) \<noteq> fst (snd b) then fst (snd a) - fst (snd b)
      else (case (snd (snd a), snd (snd b)) of
              (Some x, Some y) \<Rightarrow> x - y
            | _ \<Rightarrow> 0))"

definition coverageWarning :: string where
  "coverageWarning = ''Assigned despite unavailable date - required coverage''"

text \<open>
  The candidates of a slot, each with the count that \<^verbatim>\<open>currentLoad\<close> holds for
  the slot's shift type. \<open>strictPool\<close> is the first filter of the loop body,
  \<open>relaxedPool\<close> the last resort.
\<close>

definition strictPool :: "scheduler \<Rightarrow> target \<Rightarrow> slot \<Rightarrow> (person \<times> int) list \<Rightarrow> (person \<times> int) list" where
  "strictPool st tg sl loaded =
     filter (\<lambda>(p, c).
        if tmax tg \<le> c then False
        else if getSameDayShifts st p sl \<noteq> [] then False
        else if c < tmin tg then True
        else canAssign st p sl) loaded"

definition relaxedPool :: "scheduler \<Rightarrow> slot \<Rightarrow> (person \<times> int) list \<Rightarrow> (person \<times> int) list" where
  "relaxedPool st sl loaded = filter (\<lambda>(p, c). getSameDayShifts st p sl = []) loaded"

definition rankCandidates :: "scheduler \<Rightarrow> slot \<Rightarrow> person list \<Rightarrow> (person \<times> int \<times> int option) list" where
  "rankCandidates st sl fairCandidates =
     (let dateNum = parseInt (filter (\<lambda>c. c \<noteq> CHR ''-'') (dateStr sl));
          slotNum = int (slotIndex sl) + (if role sl = Primary then 0 else 100);
          rotationSeed = map_option (\<lambda>dn. (dn + slotNum) mod int (length fairCandidates)) dateNum
      in sortBy rankCompare
           (map (\<lambda>(p, originalIndex).
                   (p, prefCost st p sl,
                    map_option (\<lambda>seed. (int originalIndex + seed) mod int (length fairCandidates))
                      rotationSeed))
              (zip fairCandidates [0..<length fairCandidates])))"

text \<open>Steps 1 and 2 of the selection: the candidates at the minimum count.\<close>

definition fairCandidates :: "(person \<times> int) list \<Rightarrow> person list" where
  "fairCandidates candidates =
     (case candidates of
        [] \<Rightarrow> []
      | c0 # cs \<Rightarrow>
          (let minShiftCount = fold min (map snd cs) (snd c0)
           in map fst (filter (\<lambda>(p, c). c = minShiftCount) candidates)))"

text \<open>\<^verbatim>\<open>rankedCandidates[0]\<close>, if there is one.\<close>

definition selectBest :: "scheduler \<Rightarrow> slot \<Rightarrow> (person \<times> int) list \<Rightarrow> person option" where
  "selectBest st sl candidates =
     (case rankCandidates st sl (fairCandidates candidates) of
        [] \<Rightarrow> None
      | best # _ \<Rightarrow> Some (fst best))"

text \<open>The body of the loop over the sorted slots: one slot is assigned and pushed.\<close>

definition assignSlot :: "targets \<Rightarrow> scheduler \<Rightarrow> load_map \<Rightarrow> slot \<Rightarrow> error + scheduler \<times> load_map" where
  "assignSlot tgs st currentLoad sl =
     (case mapE (getCount currentLoad (getShiftTypeKey sl)) (people st) of
        Inl e \<Rightarrow> Inl e
      | Inr counts \<Rightarrow>
          (let strict = strictPool st (tgs (getShiftTypeKey sl)) sl (zip (people st) counts);
               candidates = (if strict = [] then relaxedPool st sl (zip (people st) counts)
                             else strict);
               sl1 = (if strict = [] then sl\<lparr>warning := Some coverageWarning\<rparr> else sl)
           in if candidates = [] then Inl (CannotSchedule (slot_id sl))
              else case selectBest st sl1 candidates of
                     None \<Rightarrow> Inl TypeError
                   | Some best \<Rightarrow>
                       (case currentLoad (email best) of
                          None \<Rightarrow> Inl TypeError
                        | Some l \<Rightarrow>
                            Inr (st\<lparr>schedule := schedule st
                                      @ [sl1\<lparr>assignedPerson := Some best, cost := None\<rparr>]\<rparr>,
                                 adjustLoad currentLoad (email best) (getShiftTypeKey sl) 1
                                   (duration sl)))))"

text \<open>The loop itself. An error leaves the scheduler as the slots before it made it.\<close>

fun greedyFill :: "targets \<Rightarrow> slot list \<Rightarrow> scheduler \<Rightarrow> load_map \<Rightarrow> error option \<times> scheduler \<times> load_map" where
  "greedyFill tgs [] st currentLoad = (None, st, currentLoad)"
| "greedyFill tgs (sl # rest) st currentLoad =
     (case assignSlot tgs st currentLoad sl of
        Inl e \<Rightarrow> (Some e, st, currentLoad)
      | Inr (st', load') \<Rightarrow> greedyFill tgs rest st' load')"

section \<open>The swap optimizer\<close>

text \<open>Does the person hold a slot other than \<open>sl\<close> on the day of \<open>sl\<close>? This is the
  same-day check of the optimizer and of both strategies of the balancer.\<close>

definition hasOtherSameDay :: "scheduler \<Rightarrow> slot \<Rightarrow> person \<Rightarrow> bool" where
  "hasOtherSameDay st sl p =
     list_ex (\<lambda>s. slot_id s \<noteq> slot_id sl \<and> heldBy s (email p) \<and> dateStr s = dateStr sl)
       (schedule st)"

text \<open>The loop over the other people for one slot: the first person who passes the
  checks and is cheaper by more than 20, with the cost of the swap.\<close>

fun findSwap ::
  "targets \<Rightarrow> scheduler \<Rightarrow> load_map \<Rightarrow> slot \<Rightarrow> person \<Rightarrow> int \<Rightarrow> person list
     \<Rightarrow> error + (person \<times> int) option" where
  "findSwap tgs st currentLoad sl currentPerson currentCost [] = Inr None"
| "findSwap tgs st currentLoad sl currentPerson currentCost (p # ps) =
     (if email p = email currentPerson
      then findSwap tgs st currentLoad sl currentPerson currentCost ps
      else case currentLoad (email p) of
             None \<Rightarrow> Inl TypeError
           | Some newPersonLoad \<Rightarrow>
               (let shiftType = getShiftTypeKey sl; tg = tgs shiftType
                in if tmax tg \<le> load_get newPersonLoad shiftType
                   then findSwap tgs st currentLoad sl currentPerson currentCost ps
                   else if \<not> canAssign st p sl \<and> tmin tg \<le> load_get newPersonLoad shiftType
                   then findSwap tgs st currentLoad sl currentPerson currentCost ps
                   else if hasOtherSameDay st sl p
                   then findSwap tgs st currentLoad sl currentPerson currentCost ps
                   else case calculateCost st p sl currentLoad (Some tgs) of
                          Inl e \<Rightarrow> Inl e
                        | Inr swapCost \<Rightarrow>
                            if swapCost < currentCost - 20 then Inr (Some (p, swapCost))
                            else findSwap tgs st currentLoad sl currentPerson currentCost ps))"

text \<open>The slot at index \<open>i\<close> moves to \<open>p\<close>: both load records and the slot change.\<close>

definition moveSlot :: "scheduler \<Rightarrow> load_map \<Rightarrow> nat \<Rightarrow> string \<Rightarrow> person \<Rightarrow> scheduler \<times> load_map" where
  "moveSlot st currentLoad i fromEmail p =
     (let sl = schedule st ! i; shiftType = getShiftTypeKey sl
      in (st\<lparr>schedule := (schedule st)[i := sl\<lparr>assignedPerson := Some p\<rparr>]\<rparr>,
          adjustLoad (adjustLoad currentLoad fromEmail shiftType (- 1) (- duration sl))
            (email p) shiftType 1 (duration sl)))"

definition setCost :: "scheduler \<Rightarrow> nat \<Rightarrow> int \<Rightarrow> scheduler" where
  "setCost st i c = st\<lparr>schedule := (schedule st)[i := (schedule st ! i)\<lparr>cost := Some c\<rparr>]\<rparr>"

text \<open>The body of the loop over the schedule, for the slot at index \<open>i\<close>; the flag tells
  whether a swap was made.\<close>

definition optimizeSlot :: "targets \<Rightarrow> scheduler \<Rightarrow> load_map \<Rightarrow> nat \<Rightarrow> error + scheduler \<times> load_map \<times> bool" where
  "optimizeSlot tgs st currentLoad i =
     (let sl = schedule st ! i
      in case assignedPerson sl of
           None \<Rightarrow> Inl TypeError
         | Some currentPerson \<Rightarrow>
             (case currentLoad (email currentPerson) of
                None \<Rightarrow> Inl TypeError
              | Some currentPersonLoad \<Rightarrow>
                  (let shiftType = getShiftTypeKey sl; tg = tgs shiftType
                   in if load_get currentPersonLoad shiftType \<le> tmin tg
                      then Inr (st, currentLoad, False)
                      else case calculateCost st currentPerson sl currentLoad (Some tgs) of
                             Inl e \<Rightarrow> Inl e
                           | Inr currentCost \<Rightarrow>
                               (case findSwap tgs st currentLoad sl currentPerson currentCost (people st) of
                                  Inl e \<Rightarrow> Inl e
                                | Inr None \<Rightarrow> Inr (st, currentLoad, False)
                                | Inr (Some (p, swapCost)) \<Rightarrow>
                                    (let (st', load') = moveSlot st currentLoad i (email currentPerson) p
                                     in Inr (setCost st' i swapCost, load', True))))))"

fun optimizePass ::
  "targets \<Rightarrow> nat list \<Rightarrow> scheduler \<Rightarrow> load_map \<Rightarrow> bool \<Rightarrow> error option \<times> scheduler \<times> load_map \<times> bool" where
  "optimizePass tgs [] st currentLoad improved = (None, st, currentLoad, improved)"
| "optimizePass tgs (i # is) st currentLoad improved =
     (case optimizeSlot tgs st currentLoad i of
        Inl e \<Rightarrow> (Some e, st, currentLoad, improved)
      | Inr (st', load', changed) \<Rightarrow> optimizePass tgs is st' load' (improved \<or> changed))"

text \<open>\<^verbatim>\<open>while (improved && iterations < maxIterations)\<close>, counting down.\<close>

fun optimizeLoop :: "nat \<Rightarrow> targets \<Rightarrow> scheduler \<Rightarrow> load_map \<Rightarrow> error option \<times> scheduler \<times> load_map" where
  "optimizeLoop 0 tgs st currentLoad = (None, st, currentLoad)"
| "optimizeLoop (Suc n) tgs st currentLoad =
     (case optimizePass tgs [0..<length (schedule st)] st currentLoad False of
        (Some e, st', load', _) \<Rightarrow> (Some e, st', load')
      | (None, st', load', improved) \<Rightarrow>
          if improved then optimizeLoop n tgs st' load' else (None, st', load'))"

definition optimizeWithSwaps :: "targets \<Rightarrow> scheduler \<Rightarrow> load_map \<Rightarrow> error option \<times> scheduler \<times> load_map" where
  "optimizeWithSwaps tgs st currentLoad = optimizeLoop 100 tgs st currentLoad"


section \<open>The balancer\<close>

text \<open>The indices of the slots of the schedule that a person holds in a shift type.\<close>

definition slotsOf :: "scheduler \<Rightarrow> person \<Rightarrow> shiftType \<Rightarrow> nat list" where
  "slotsOf st p k =
     filter (\<lambda>i. heldBy (schedule st ! i) (email p) \<and> getShiftTypeKey (schedule st ! i) = k)
       [0..<length (schedule st)]"

definition balanceScore :: "scheduler \<Rightarrow> slot \<Rightarrow> person \<Rightarrow> int" where
  "balanceScore st sl p =
     (if isPreferred st p sl then - 1 else if isNotPreferred st p sl then 1 else 0)"

text \<open>Strategy 1, for one slot of a donor: the recipients free that day, sorted by
  preference; the first who has not marked the day, else the first.\<close>

definition pickRecipient :: "scheduler \<Rightarrow> slot \<Rightarrow> person list \<Rightarrow> person option" where
  "pickRecipient st sl recipients =
     (let candidates =
            sortBy (\<lambda>a b. balanceScore st sl a - balanceScore st sl b)
              (filter (\<lambda>p. \<not> hasOtherSameDay st sl p) recipients)
      in case find (\<lambda>p. \<not> isNotPreferred st p sl) candidates of
           Some p \<Rightarrow> Some p
         | None \<Rightarrow> (case candidates of [] \<Rightarrow> None | c # _ \<Rightarrow> Some c))"

fun directForSlots :: "scheduler \<Rightarrow> person list \<Rightarrow> nat list \<Rightarrow> (nat \<times> person) option" where
  "directForSlots st recipients [] = None"
| "directForSlots st recipients (i # is) =
     (case pickRecipient st (schedule st ! i) recipients of
        Some toPerson \<Rightarrow> Some (i, toPerson)
      | None \<Rightarrow> directForSlots st recipients is)"

fun directForDonors ::
  "scheduler \<Rightarrow> shiftType \<Rightarrow> person list \<Rightarrow> person list \<Rightarrow> (person \<times> nat \<times> person) option" where
  "directForDonors st k recipients [] = None"
| "directForDonors st k recipients (fromPerson # ds) =
     (case directForSlots st recipients (slotsOf st fromPerson k) of
        Some (i, toPerson) \<Rightarrow> Some (fromPerson, i, toPerson)
      | None \<Rightarrow> directForDonors st k recipients ds)"

text \<open>Strategy 2, the triangle: a slot of the donor goes to an intermediary, a slot of the
  intermediary on another day goes to a recipient.\<close>

fun triangleForIntSlots :: "scheduler \<Rightarrow> person list \<Rightarrow> nat list \<Rightarrow> (nat \<times> person) option" where
  "triangleForIntSlots st recipients [] = None"
| "triangleForIntSlots st recipients (j # js) =
     (case find (\<lambda>p. \<not> hasOtherSameDay st (schedule st ! j) p) recipients of
        Some recipient \<Rightarrow> Some (j, recipient)
      | None \<Rightarrow> triangleForIntSlots st recipients js)"

fun triangleForIntermediaries ::
  "scheduler \<Rightarrow> shiftType \<Rightarrow> person list \<Rightarrow> slot \<Rightarrow> person list \<Rightarrow> (person \<times> nat \<times> person) option" where
  "triangleForIntermediaries st k recipients donorSlot [] = None"
| "triangleForIntermediaries st k recipients donorSlot (intermediary # ims) =
     (if hasOtherSameDay st donorSlot intermediary
      then triangleForIntermediaries st k recipients donorSlot ims
      else case triangleForIntSlots st recipients
                  (filter (\<lambda>j. dateStr (schedule st ! j) \<noteq> dateStr donorSlot)
                     (slotsOf st intermediary k)) of
             Some (j, recipient) \<Rightarrow> Some (intermediary, j, recipient)
           | None \<Rightarrow> triangleForIntermediaries st k recipients donorSlot ims)"

fun triangleForDonorSlots ::
  "scheduler \<Rightarrow> shiftType \<Rightarrow> person list \<Rightarrow> person list \<Rightarrow> nat list
     \<Rightarrow> (nat \<times> person \<times> nat \<times> person) option" where
  "triangleForDonorSlots st k recipients intermediaries [] = None"
| "triangleForDonorSlots st k recipients intermediaries (i # is) =
     (case triangleForIntermediaries st k recipients (schedule st ! i) intermediaries of
        Some x \<Rightarrow> Some (i, x)
      | None \<Rightarrow> triangleForDonorSlots st k recipients intermediaries is)"

fun triangleForDonors ::
  "scheduler \<Rightarrow> shiftType \<Rightarrow> (person \<times> int) list \<Rightarrow> int \<Rightarrow> int \<Rightarrow> person list \<Rightarrow> person list
     \<Rightarrow> (person \<times> nat \<times> person \<times> nat \<times> person) option" where
  "triangleForDonors st k counts minCount maxCount recipients [] = None"
| "triangleForDonors st k counts minCount maxCount recipients (donor # ds) =
     (let intermediaries =
            map fst (filter (\<lambda>(p, pCount).
                       email p \<noteq> email donor
                       \<and> \<not> list_ex (\<lambda>r. email r = email p) recipients
                       \<and> minCount \<le> pCount \<and> pCount \<le> maxCount) counts)
      in case triangleForDonorSlots st k recipients intermediaries (slotsOf st donor k) of
           Some x \<Rightarrow> Some (donor, x)
         | None \<Rightarrow> triangleForDonors st k counts minCount maxCount recipients ds)"

text \<open>One iteration of the \<^verbatim>\<open>while\<close> loop for a shift type: \<open>None\<close> when the
  loop stops (the counts are within 1 of each other, or no move was found).\<close>

definition balanceStep :: "scheduler \<Rightarrow> load_map \<Rightarrow> shiftType \<Rightarrow> error + (scheduler \<times> load_map) option" where
  "balanceStep st currentLoad k =
     (case mapE (getCount currentLoad k) (people st) of
        Inl e \<Rightarrow> Inl e
      | Inr [] \<Rightarrow> Inr None
      | Inr (c0 # cs) \<Rightarrow>
          (let counts = zip (people st) (c0 # cs);
               minCount = fold min cs c0;
               maxCount = fold max cs c0
           in if maxCount - minCount \<le> 1 then Inr None
              else
                (let donors = map fst (filter (\<lambda>(p, c). c = maxCount) counts);
                     recipients = map fst (filter (\<lambda>(p, c). c = minCount) counts)
                 in case directForDonors st k recipients donors of
                      Some (fromPerson, i, toPerson) \<Rightarrow>
                        (if currentLoad (email fromPerson) = None \<or> currentLoad (email toPerson) = None
                         then Inl TypeError
                         else Inr (Some (moveSlot st currentLoad i (email fromPerson) toPerson)))
                    | None \<Rightarrow>
                        (case triangleForDonors st k counts minCount maxCount recipients donors of
                           None \<Rightarrow> Inr None
                         | Some (donor, i, intermediary, j, recipient) \<Rightarrow>
                             (if currentLoad (email donor) = None
                                 \<or> currentLoad (email intermediary) = None
                                 \<or> currentLoad (email recipient) = None
                              then Inl TypeError
                              else
                                (let (st1, load1) = moveSlot st currentLoad i (email donor) intermediary
                                 in Inr (Some (moveSlot st1 load1 j (email intermediary) recipient))))))))"

text \<open>\<^verbatim>\<open>while (madeChange && iterations < maxIterations)\<close>, counting down.\<close>

fun balanceLoop :: "nat \<Rightarrow> shiftType \<Rightarrow> scheduler \<Rightarrow> load_map \<Rightarrow> error option \<times> scheduler \<times> load_map" where
  "balanceLoop 0 k st currentLoad = (None, st, currentLoad)"
| "balanceLoop (Suc n) k st currentLoad =
     (case balanceStep st currentLoad k of
        Inl e \<Rightarrow> (Some e, st, currentLoad)
      | Inr None \<Rightarrow> (None, st, currentLoad)
      | Inr (Some (st', load')) \<Rightarrow> balanceLoop n k st' load')"

fun balanceTypes :: "shiftType list \<Rightarrow> scheduler \<Rightarrow> load_map \<Rightarrow> error option \<times> scheduler \<times> load_map" where
  "balanceTypes [] st currentLoad = (None, st, currentLoad)"
| "balanceTypes (k # ks) st currentLoad =
     (case balanceLoop 500 k st currentLoad of
        (Some e, st', load') \<Rightarrow> (Some e, st', load')
      | (None, st', load') \<Rightarrow> balanceTypes ks st' load')"

text \<open>The targets are an argument of \<^verbatim>\<open>balanceShifts\<close> that it never reads.\<close>

definition balanceShifts :: "targets \<Rightarrow> scheduler \<Rightarrow> load_map \<Rightarrow> error option \<times> scheduler \<times> load_map" where
  "balanceShifts tgs st currentLoad =
     balanceTypes [Weekday_primary, Weekend_primary, Weekday_secondary, Weekend_secondary]
       st currentLoad"

section \<open>The report and the whole run\<close>

definition personReport :: "scheduler \<Rightarrow> load_map \<Rightarrow> person \<Rightarrow> error + person_report" where
  "personReport st currentLoad p =
     (let assignedSlots = filter (\<lambda>s. heldBy s (email p)) (schedule st)
      in if assignedSlots \<noteq> [] \<and> preferences st (email p) = None then Inl TypeError
         else case currentLoad (email p) of
                None \<Rightarrow> Inl TypeError
              | Some load \<Rightarrow>
                  Inr \<lparr>r_name = name p, r_email = email p,
                       weekdayPrimary = weekday_primary load,
                       weekendPrimary = weekend_primary load,
                       weekdaySecondary = weekday_secondary load,
                       weekendSecondary = weekend_secondary load,
                       totalHours = total_hours load,
                       totalShifts = length assignedSlots,
                       preferredAssignments =
                         length (filter (\<lambda>s. isPreferred st p s) assignedSlots),
                       indifferentAssignments =
                         length (filter (\<lambda>s. \<not> isPreferred st p s \<and> \<not> isNotPreferred st p s)
                                   assignedSlots),
                       notPreferredAssignments =
                         length (filter (\<lambda>s. \<not> isPreferred st p s \<and> isNotPreferred st p s)
                                   assignedSlots)\<rparr>)"

definition generateFairnessReport :: "scheduler \<Rightarrow> load_map \<Rightarrow> error + report" where
  "generateFairnessReport st currentLoad =
     (case mapE (personReport st currentLoad) (people st) of
        Inl e \<Rightarrow> Inl e
      | Inr rows \<Rightarrow>
          Inr \<lparr>byPerson = rows,
               summaryTotalShifts = length (schedule st),
               summaryTotalDays = length (generateDates st),
               summaryWeekendDays = length (filter isWeekendNight (generateDates st))\<rparr>)"

text \<open>
  \<^verbatim>\<open>generateSchedule\<close> returns its result, or the error thrown, together with the
  scheduler as the call leaves it.
\<close>

definition generateSchedule :: "scheduler \<Rightarrow> (error + slot list \<times> report) \<times> scheduler" where
  "generateSchedule st =
     (let totalSlotsPerDay = primaryCount st + secondaryCount st
      in if length (people st) < totalSlotsPerDay
         then (Inl (NotEnoughPeople totalSlotsPerDay (primaryCount st) (secondaryCount st)), st)
         else if dateRangeStart st = None \<or> dateRangeEnd st = None
         then (Inl DateRangeNotSet, st)
         else
           (let slots = generateSlots st;
                currentLoad = initializeLoad st;
                tgs = calculateTargetShifts st
            in case greedyFill tgs (sortBy slotCompare slots) (st\<lparr>schedule := []\<rparr>) currentLoad of
                 (Some e, st1, load1) \<Rightarrow> (Inl e, st1)
               | (None, st1, load1) \<Rightarrow>
                   (case optimizeWithSwaps tgs st1 load1 of
                      (Some e, st2, load2) \<Rightarrow> (Inl e, st2)
                    | (None, st2, load2) \<Rightarrow>
                        (case balanceShifts tgs st2 load2 of
                           (Some e, st3, load3) \<Rightarrow> (Inl e, st3)
                         | (None, st3, load3) \<Rightarrow>
                             (case generateFairnessReport st3 load3 of
                                Inl e \<Rightarrow> (Inl e, st3)
                              | Inr rep \<Rightarrow> (Inr (schedule st3, rep), st3))))))"

section \<open>Export\<close>

definition csvHeader :: "string list" where
  "csvHeader = [''Date'', ''Day'', ''Role'', ''Slot'', ''Weekend'', ''Duration (hours)'',
                ''Person Name'', ''Person Email'']"

text \<open>A cell that is \<^verbatim>\<open>undefined\<close> is joined as the empty string.\<close>

definition csvRow :: "slot \<Rightarrow> string list" where
  "csvRow s =
     [dateStr s,
      (case getDayName (date s) of None \<Rightarrow> [] | Some n \<Rightarrow> n),
      roleName (role s),
      toUpperCase (slotLabel s),
      (if isWeekend s then ''Yes'' else ''No''),
      show_int (duration s),
      (case assignedPerson s of None \<Rightarrow> ''UNASSIGNED'' | Some p \<Rightarrow> name p),
      (case assignedPerson s of None \<Rightarrow> [] | Some p \<Rightarrow> email p)]"

definition exportToCSV_rows :: "scheduler \<Rightarrow> string list list" where
  "exportToCSV_rows st = csvHeader # map csvRow (schedule st)"

definition exportToCSV :: "scheduler \<Rightarrow> string" where
  "exportToCSV st = join [CHR 0x0A] (map (join '','') (exportToCSV_rows st))"

definition w2wHeader :: "string list" where
  "w2wHeader = [''Date'', ''Day'', ''Start Time'', ''End Time'', ''Position'',
                ''Employee Name'', ''Employee Email'']"

definition capitalizedRole :: "role \<Rightarrow> string" where
  "capitalizedRole r = (case r of Primary \<Rightarrow> ''Primary'' | Secondary \<Rightarrow> ''Secondary'')"

text \<open>The row of an assigned slot; a template string prints \<^verbatim>\<open>undefined\<close> by name.\<close>

definition w2wRow :: "string \<Rightarrow> slot \<Rightarrow> person \<Rightarrow> string list" where
  "w2wRow teamName s p =
     [dateStr s,
      (case getDayName (date s) of None \<Rightarrow> ''undefined'' | Some n \<Rightarrow> n),
      ''8:00 PM'',
      (if isWeekend s \<and> role s = Primary then ''8:00 PM'' else ''8:00 AM''),
      teamName @ '' - '' @ capitalizedRole (role s) @ '' '' @ toUpperCase (slotLabel s),
      name p,
      email p]"

text \<open>\<^verbatim>\<open>if (!slot.assignedPerson) continue;\<close>\<close>

definition exportForWhenToWork_rows :: "scheduler \<Rightarrow> string \<Rightarrow> string list list" where
  "exportForWhenToWork_rows st teamName =
     w2wHeader # concat (map (\<lambda>s. case assignedPerson s of
                                      None \<Rightarrow> []
                                    | Some p \<Rightarrow> [w2wRow teamName s p]) (schedule st))"

definition exportForWhenToWork :: "scheduler \<Rightarrow> string \<Rightarrow> string" where
  "exportForWhenToWork st teamName =
     join [CHR 0x0A]
       (map (\<lambda>row. join '','' (map (\<lambda>cell. ''\"'' @ cell @ ''\"'') row))
          (exportForWhenToWork_rows st teamName))"


section \<open>Properties of a schedule and of a run\<close>

text \<open>Nobody, told apart by email as the scheduler does, holds two slots of the schedule
  with the same calendar-day string.\<close>

definition noDoubleBooking :: "slot list \<Rightarrow> bool" where
  "noDoubleBooking sched =
     (\<forall>i < length sched. \<forall>j < length sched. i \<noteq> j \<longrightarrow>
        (\<forall>em. heldBy (sched ! i) em \<and> heldBy (sched ! j) em \<longrightarrow>
              dateStr (sched ! i) \<noteq> dateStr (sched ! j)))"

text \<open>The number of slots of a shift type that a person holds, and the hours of all the
  slots the person holds.\<close>

definition categoryCount :: "slot list \<Rightarrow> string \<Rightarrow> shiftType \<Rightarrow> int" where
  "categoryCount sched em k =
     int (length (filter (\<lambda>s. heldBy s em \<and> getShiftTypeKey s = k) sched))"

definition assignedHours :: "slot list \<Rightarrow> string \<Rightarrow> int" where
  "assignedHours sched em = sum_list (map duration (filter (\<lambda>s. heldBy s em) sched))"

text \<open>The load map is consistent with the schedule for everybody in the roster.\<close>

definition loadConsistent :: "person list \<Rightarrow> slot list \<Rightarrow> load_map \<Rightarrow> bool" where
  "loadConsistent ps sched load =
     (\<forall>p \<in> set ps. \<exists>l. load (email p) = Some l
        \<and> (\<forall>k. load_get l k = categoryCount sched (email p) k)
        \<and> total_hours l = assignedHours sched (email p))"

text \<open>
  The points of a run of \<open>generateSchedule\<close> on the scheduler \<open>st\<close>, each with the
  schedule and the load map at that point: after the first \<open>n\<close> slots of the initial fill
  (or where the fill stopped with an error), after any step of the optimizer on a slot,
  and after any transfer or triangle rotation of the balancer.
\<close>

inductive duringRun :: "scheduler \<Rightarrow> scheduler \<times> load_map \<Rightarrow> bool" for st where
  filling:
    "greedyFill (calculateTargetShifts st) (take n (sortBy slotCompare (generateSlots st)))
       (st\<lparr>schedule := []\<rparr>) (initializeLoad st) = (r, st1, load1)
     \<Longrightarrow> duringRun st (st1, load1)"
| swapping:
    "duringRun st (st1, load1) \<Longrightarrow> i < length (schedule st1)
     \<Longrightarrow> optimizeSlot (calculateTargetShifts st) st1 load1 i = Inr (st2, load2, changed)
     \<Longrightarrow> duringRun st (st2, load2)"
| balancing:
    "duringRun st (st1, load1) \<Longrightarrow> balanceStep st1 load1 k = Inr (Some (st2, load2))
     \<Longrightarrow> duringRun st (st2, load2)"

text \<open>What the proofs carry through a run: the slots of the schedule are told apart by day
  and id, nobody is double-booked, and every record of the load map, whether its email is
  in the roster or not, agrees with the schedule.\<close>

definition slotKey :: "slot \<Rightarrow> string \<times> string" where
  "slotKey s = (dateStr s, slot_id s)"

definition loadExact :: "slot list \<Rightarrow> load_map \<Rightarrow> bool" where
  "loadExact sched load =
     (\<forall>em l. load em = Some l \<longrightarrow>
        (\<forall>k. load_get l k = categoryCount sched em k) \<and> total_hours l = assignedHours sched em)"

definition runInv :: "scheduler \<Rightarrow> load_map \<Rightarrow> bool" where
  "runInv st load =
     (distinct (map slotKey (schedule st)) \<and> noDoubleBooking (schedule st)
      \<and> loadExact (schedule st) load \<and> email ` set (people st) \<subseteq> dom load)"

section \<open>What the claims are measured against\<close>


definition examplePerson :: "string \<Rightarrow> person" where
  "examplePerson em = \<lparr>name = em, email = em, person_id = em\<rparr>"




definition oneRoster :: scheduler where
  "oneRoster =
     newScheduler\<lparr>people := [examplePerson ''a''],
                  preferences := [''a'' \<mapsto> \<lparr>preferred = {}, notPreferred = {}\<rparr>]\<rparr>"


definition fridayNight :: scheduler where
  "fridayNight =
     oneRoster\<lparr>dateRangeStart := Some (LocalDate 2025 0 3), dateRangeEnd := Some (LocalDate 2025 0 3),
               secondaryCount := 0\<rparr>"

definition fridaySlot :: slot where
  "fridaySlot =
     \<lparr>slot_id = ''2025-01-03-primary-a'', date = LocalDate 2025 0 3, dateStr = ''2025-01-03'',
      role = Primary, slotLabel = ''a'', slotIndex = 0, isWeekend = True, duration = 24,
      assignedPerson = None, warning = None, cost = None\<rparr>"



text \<open>Two people, one Monday, one primary and one secondary slot.\<close>

definition tinyRoster :: scheduler where
  "tinyRoster =
     \<lparr>people = [examplePerson ''a'', examplePerson ''b''],
      dateRangeStart = Some (LocalDate 2025 0 6), dateRangeEnd = Some (LocalDate 2025 0 6),
      preferences = [''a'' \<mapsto> \<lparr>preferred = {}, notPreferred = {}\<rparr>,
                     ''b'' \<mapsto> \<lparr>preferred = {}, notPreferred = {}\<rparr>],
      schedule = [], primaryCount = 1, secondaryCount = 1\<rparr>"

text \<open>The schedule and the load map after the initial fill of that roster.\<close>

definition tinyFill :: "scheduler \<times> load_map" where
  "tinyFill =
     snd (greedyFill (calculateTargetShifts tinyRoster)
            (take 2 (sortBy slotCompare (generateSlots tinyRoster)))
            (tinyRoster\<lparr>schedule := []\<rparr>) (initializeLoad tinyRoster))"


text \<open>
  Six people and three weekdays, Monday 2025-01-06 to Wednesday 2025-01-08, with three
  primary and two secondary slots a day; \<open>c\<close> has marked the Wednesday and \<open>e\<close> the Tuesday
  as not preferred. It is the scheduler after \<open>addPerson\<close> for \<open>a\<close> to \<open>f\<close>,
  \<open>setShiftCounts(3, 2)\<close>, \<open>setDateRange\<close> and the two calls of \<open>setPreferences\<close>.
\<close>

definition unfairRoster :: scheduler where
  "unfairRoster =
     \<lparr>people = map examplePerson [''a'', ''b'', ''c'', ''d'', ''e'', ''f''],
      dateRangeStart = Some (LocalDate 2025 0 6), dateRangeEnd = Some (LocalDate 2025 0 8),
      preferences = [''a'' \<mapsto> \<lparr>preferred = {}, notPreferred = {}\<rparr>,
                     ''b'' \<mapsto> \<lparr>preferred = {}, notPreferred = {}\<rparr>,
                     ''c'' \<mapsto> \<lparr>preferred = {}, notPreferred = {''2025-01-08''}\<rparr>,
                     ''d'' \<mapsto> \<lparr>preferred = {}, notPreferred = {}\<rparr>,
                     ''e'' \<mapsto> \<lparr>preferred = {}, notPreferred = {''2025-01-07''}\<rparr>,
                     ''f'' \<mapsto> \<lparr>preferred = {}, notPreferred = {}\<rparr>],
      schedule = [], primaryCount = 3, secondaryCount = 2\<rparr>"
section \<open>Capacity check\<close>

text \<open>
  C4. A scheduler whose roster is smaller than \<open>primaryCount + secondaryCount\<close> makes
  \<open>generateSchedule\<close> fail with the capacity error, and the scheduler the call leaves
  behind is the one it was given: in particular its schedule is untouched.
\<close>

theorem generateSchedule_capacity_error:
  assumes "length (people st) < primaryCount st + secondaryCount st"
  shows "generateSchedule st =
           (Inl (NotEnoughPeople (primaryCount st + secondaryCount st) (primaryCount st)
                   (secondaryCount st)), st)"
  using assms by (simp add: generateSchedule_def)

theorem generateSchedule_capacity_error_witness:
  "length (people newScheduler) < primaryCount newScheduler + secondaryCount newScheduler
   \<and> generateSchedule newScheduler = (Inl (NotEnoughPeople 2 1 1), newScheduler)"
  using generateSchedule_capacity_error [of newScheduler] by (simp add: newScheduler_def)

section \<open>Removing a person\<close>

text \<open>
  C6, as the claim states it, fails: removing an email that is not in the roster returns
  normally. Here the roster is empty and the scheduler comes back as it was.
\<close>

theorem removePerson_unknown_counterexample:
  "removePerson newScheduler ''nobody@example.com'' = Inr newScheduler"
  by (simp add: removePerson_def newScheduler_def)

text \<open>
  C6, amended. \<open>removePerson\<close> with an email that is not in the roster raises nothing: it
  returns a scheduler with the same roster, range, counts and schedule, in which no
  preference record is kept under that email and every other record is as before.
\<close>

theorem removePerson_unknown_is_noop:
  assumes "em \<notin> email ` set (people st)"
  shows "\<exists>st'. removePerson st em = Inr st'
           \<and> people st' = people st \<and> schedule st' = schedule st
           \<and> dateRangeStart st' = dateRangeStart st \<and> dateRangeEnd st' = dateRangeEnd st
           \<and> primaryCount st' = primaryCount st \<and> secondaryCount st' = secondaryCount st
           \<and> preferences st' em = None
           \<and> (\<forall>e. e \<noteq> em \<longrightarrow> preferences st' e = preferences st e)"
proof -
  have "filter (\<lambda>p. email p \<noteq> em) (people st) = people st"
    using assms by (induction "people st") (auto simp: filter_id_conv)
  then show ?thesis by (simp add: removePerson_def)
qed

theorem removePerson_unknown_is_noop_witness:
  "''b'' \<notin> email ` set (people oneRoster)
   \<and> (\<exists>st'. removePerson oneRoster ''b'' = Inr st' \<and> people st' = [examplePerson ''a'']
         \<and> preferences st' ''b'' = None
         \<and> preferences st' ''a'' = Some \<lparr>preferred = {}, notPreferred = {}\<rparr>)"
proof -
  have h: "''b'' \<notin> email ` set (people oneRoster)"
    by (simp add: oneRoster_def examplePerson_def)
  from removePerson_unknown_is_noop [OF h] show ?thesis
    using h by (auto simp: oneRoster_def)
qed

lemma label_chars:
  "char_of (97 :: nat) = CHR ''a''" "char_of (98 :: nat) = CHR ''b''" "char_of (99 :: nat) = CHR ''c''"
  by code_simp+

lemmas date_eval =
  generateDates_def generateDatesFrom.simps daysInMonth_def isLeapYear_def isWeekendNight_def
  days_from_civil_def formatDate_def show_int_def show_nat_def show_digits.simps padStart2_def
  digit_char_def
  getSlotLabel_def label_chars daySlots_def Let_def

section \<open>Slot durations\<close>

text \<open>
  C8. Every slot of \<open>generateSlots\<close> lasts 24 hours exactly when it is a primary slot on a
  weekend night (a Friday or a Saturday), and 12 hours otherwise.
\<close>

theorem generateSlots_duration_rule:
  "\<forall>sl \<in> set (generateSlots st).
     (duration sl = 24 \<longleftrightarrow> role sl = Primary \<and> isWeekendNight (date sl))
     \<and> (\<not> (role sl = Primary \<and> isWeekendNight (date sl)) \<longrightarrow> duration sl = 12)"
  by (auto simp: generateSlots_def daySlots_def Let_def)

theorem generateSlots_duration_rule_witness:
  "fridaySlot \<in> set (generateSlots fridayNight)
   \<and> duration fridaySlot = 24 \<and> role fridaySlot = Primary \<and> isWeekendNight (date fridaySlot)"
proof -
  have mem: "fridaySlot \<in> set (generateSlots fridayNight)"
    by (simp add: generateSlots_def fridayNight_def oneRoster_def newScheduler_def fridaySlot_def
        date_eval)
  have "duration fridaySlot = 24" by (simp add: fridaySlot_def)
  with generateSlots_duration_rule [of fridayNight] mem show ?thesis by blast
qed

section \<open>Export\<close>




section \<open>Cost\<close>




section \<open>Lists, errors and sorting\<close>


lemma mapE_Inr_nth: "mapE f xs = Inr ys \<Longrightarrow> i < length xs \<Longrightarrow> f (xs ! i) = Inr (ys ! i)"
proof (induction xs arbitrary: ys i)
  case Nil
  then show ?case by simp
next
  case (Cons x xs)
  then show ?case by (cases i) (auto split: sum.splits)
qed


lemma getCount_Inr: "getCount load k p = Inr c \<longleftrightarrow> (\<exists>l. load (email p) = Some l \<and> c = load_get l k)"
  by (auto simp: getCount_def split: option.splits)

lemma zip_counts_mem:
  assumes "mapE (getCount load k) ps = Inr cs" and "(p, c) \<in> set (zip ps cs)"
  shows "p \<in> set ps \<and> (\<exists>l. load (email p) = Some l \<and> c = load_get l k)"
proof -
  from assms(2) obtain i where i: "i < length ps" "i < length cs" "ps ! i = p" "cs ! i = c"
    by (auto simp: set_zip)
  from mapE_Inr_nth [OF assms(1) i(1)] i show ?thesis
    by (auto simp: getCount_Inr)
qed



lemma set_insertBy: "set (insertBy cmp x ys) = insert x (set ys)"
  by (induction ys) auto

lemma set_sortBy: "set (sortBy cmp xs) = set xs"
  by (induction xs) (auto simp: sortBy_def set_insertBy)



lemma rankCandidates_people: "fst ` set (rankCandidates st sl fair) = set fair"
proof -
  have "fst ` set (zip fair [0..<length fair]) = set fair"
    by (metis length_map map_fst_zip map_nth set_map)
  then show ?thesis
    by (force simp: rankCandidates_def Let_def set_sortBy image_image case_prod_unfold)
qed

lemma fairCandidates_Cons:
  "fairCandidates (c0 # cs) =
     map fst (filter (\<lambda>(p, c). c = fold min (map snd cs) (snd c0)) (c0 # cs))"
  unfolding fairCandidates_def Let_def by simp

lemma fairCandidates_subset: "set (fairCandidates cands) \<subseteq> fst ` set cands"
proof (cases cands)
  case Nil
  then show ?thesis by (simp add: fairCandidates_def)
next
  case (Cons c0 cs)
  show ?thesis unfolding Cons fairCandidates_Cons by auto
qed


lemma selectBest_mem: "selectBest st sl cands = Some p \<Longrightarrow> p \<in> fst ` set cands"
proof -
  assume "selectBest st sl cands = Some p"
  then obtain best rest where "rankCandidates st sl (fairCandidates cands) = best # rest" "p = fst best"
    by (auto simp: selectBest_def split: list.splits)
  then have "p \<in> fst ` set (rankCandidates st sl (fairCandidates cands))" by simp
  then show ?thesis using fairCandidates_subset [of cands] by (auto simp: rankCandidates_people)
qed


lemma candidates_free:
  assumes "(p, c) \<in> set (if strictPool st tg sl loaded = [] then relaxedPool st sl loaded
                          else strictPool st tg sl loaded)"
  shows "(p, c) \<in> set loaded \<and> getSameDayShifts st p sl = []"
  using assms by (auto simp: strictPool_def relaxedPool_def split: if_splits)

section \<open>One step of the initial fill\<close>

text \<open>What a successful step does: the slot, flagged if the strict pool was empty, goes to
  a person of the roster who holds no slot that day, and that person's load grows.\<close>

lemma assignSlot_Inr:
  assumes "assignSlot tgs st currentLoad sl = Inr (st', load')"
  shows "\<exists>p counts.
           mapE (getCount currentLoad (getShiftTypeKey sl)) (people st) = Inr counts
           \<and> p \<in> set (people st) \<and> getSameDayShifts st p sl = []
           \<and> currentLoad (email p) \<noteq> None
           \<and> st' = st\<lparr>schedule := schedule st @
                   [sl\<lparr>warning :=
                         (if strictPool st (tgs (getShiftTypeKey sl)) sl (zip (people st) counts) = []
                          then Some coverageWarning else warning sl),
                       assignedPerson := Some p, cost := None\<rparr>]\<rparr>
           \<and> load' = adjustLoad currentLoad (email p) (getShiftTypeKey sl) 1 (duration sl)"
proof -
  from assms obtain counts where
    counts: "mapE (getCount currentLoad (getShiftTypeKey sl)) (people st) = Inr counts"
    by (auto simp: assignSlot_def split: sum.splits)
  define strict where "strict = strictPool st (tgs (getShiftTypeKey sl)) sl (zip (people st) counts)"
  define candidates where
    "candidates = (if strict = [] then relaxedPool st sl (zip (people st) counts) else strict)"
  define sl1 where "sl1 = (if strict = [] then sl\<lparr>warning := Some coverageWarning\<rparr> else sl)"
  have unfolded: "assignSlot tgs st currentLoad sl =
    (if candidates = [] then Inl (CannotSchedule (slot_id sl))
     else case selectBest st sl1 candidates of
            None \<Rightarrow> Inl TypeError
          | Some best \<Rightarrow>
              (case currentLoad (email best) of
                 None \<Rightarrow> Inl TypeError
               | Some l \<Rightarrow>
                   Inr (st\<lparr>schedule := schedule st @ [sl1\<lparr>assignedPerson := Some best, cost := None\<rparr>]\<rparr>,
                        adjustLoad currentLoad (email best) (getShiftTypeKey sl) 1 (duration sl))))"
    unfolding strict_def candidates_def sl1_def assignSlot_def Let_def counts by simp
  from assms obtain best l where
    best: "selectBest st sl1 candidates = Some best"
    and l: "currentLoad (email best) = Some l"
    and res: "st' = st\<lparr>schedule := schedule st @ [sl1\<lparr>assignedPerson := Some best, cost := None\<rparr>]\<rparr>"
             "load' = adjustLoad currentLoad (email best) (getShiftTypeKey sl) 1 (duration sl)"
    unfolding unfolded by (auto split: if_splits option.splits)
  from selectBest_mem [OF best] obtain c where "(best, c) \<in> set candidates" by auto
  then have "(best, c) \<in> set (zip (people st) counts) \<and> getSameDayShifts st best sl = []"
    unfolding candidates_def strict_def by (rule candidates_free)
  then have mem: "best \<in> set (people st)" and free: "getSameDayShifts st best sl = []"
    using zip_counts_mem [OF counts] by auto
  have "sl1\<lparr>assignedPerson := Some best, cost := None\<rparr>
        = sl\<lparr>warning := (if strict = [] then Some coverageWarning else warning sl),
             assignedPerson := Some best, cost := None\<rparr>"
    by (simp add: sl1_def)
  with counts mem free l res show ?thesis
    unfolding strict_def by (intro exI [of _ best] exI [of _ counts]) simp
qed



section \<open>Coverage override\<close>




section \<open>Decimal text\<close>

lemma digit_char_cases:
  assumes "n < 10"
  shows "digit_char n \<in> set ''0123456789'' \<and> digit_val (digit_char n) = int n"
proof -
  from assms have "n \<in> {0, 1, 2, 3, 4, 5, 6, 7, 8, 9}" by auto
  then show ?thesis by (auto simp: digit_char_def digit_val_def)
qed

lemma is_digit_digit_char: "n < 10 \<Longrightarrow> is_digit (digit_char n)"
  using digit_char_cases [of n] by (simp add: is_digit_def)

lemma digit_val_digit_char: "n < 10 \<Longrightarrow> digit_val (digit_char n) = int n"
  using digit_char_cases [of n] by simp

lemma is_digit_not_dash: "is_digit c \<Longrightarrow> c \<noteq> CHR ''-''"
  by (auto simp: is_digit_def)

lemma show_digits_digits: "0 \<le> i \<Longrightarrow> \<forall>c \<in> set (show_digits i). is_digit c"
proof (induction i rule: show_digits.induct)
  case (1 i)
  show ?case
  proof (cases "i < 10")
    case True
    with 1(2) show ?thesis by (simp add: show_digits.simps [of i] is_digit_digit_char)
  next
    case False
    then have "nat (i mod 10) < 10" by simp
    with 1 False show ?thesis by (simp add: show_digits.simps [of i] is_digit_digit_char)
  qed
qed

lemma show_digits_nonempty: "show_digits i \<noteq> []"
  by (simp add: show_digits.simps [of i])

lemma digits_value_snoc: "digits_value r (ds @ [c]) = digits_value r ds * r + digit_val c"
  by (simp add: digits_value_def)

lemma digits_value_show_digits: "0 \<le> i \<Longrightarrow> digits_value 10 (show_digits i) = i"
proof (induction i rule: show_digits.induct)
  case (1 i)
  show ?case
  proof (cases "i < 10")
    case True
    with 1(2) show ?thesis
      by (simp add: show_digits.simps [of i] digits_value_def digit_val_digit_char)
  next
    case False
    with 1 have "digits_value 10 (show_digits (i div 10)) = i div 10" by simp
    moreover from False have "nat (i mod 10) < 10" by simp
    ultimately show ?thesis using False
      by (simp add: show_digits.simps [of i] digits_value_snoc digit_val_digit_char)
  qed
qed

lemma show_nat_digits: "\<forall>c \<in> set (show_nat n). is_digit c"
  unfolding show_nat_def by (rule show_digits_digits) simp

lemma show_nat_nonempty: "show_nat n \<noteq> []"
  by (simp add: show_nat_def show_digits_nonempty)

lemma digits_value_show_nat: "digits_value 10 (show_nat n) = int n"
  by (simp add: show_nat_def digits_value_show_digits)

lemma show_nat_inj: "show_nat a = show_nat b \<Longrightarrow> a = b"
  by (metis digits_value_show_nat of_nat_eq_iff)

lemma digits_value_zero_prefix: "digits_value 10 (CHR ''0'' # ds) = digits_value 10 ds"
  by (simp add: digits_value_def digit_val_def)

lemma padStart2_show_nat_cases:
  "padStart2 (show_nat n) = show_nat n \<or> padStart2 (show_nat n) = CHR ''0'' # show_nat n"
proof -
  have "length (show_nat n) \<noteq> 0" using show_nat_nonempty by simp
  then have "2 - length (show_nat n) = 0 \<or> 2 - length (show_nat n) = 1" by arith
  then show ?thesis by (auto simp: padStart2_def)
qed

lemma padStart2_digits: "\<forall>c \<in> set (padStart2 (show_nat n)). is_digit c"
proof -
  have zero: "is_digit CHR ''0''" by (simp add: is_digit_def)
  from padStart2_show_nat_cases [of n] show ?thesis
  proof
    assume "padStart2 (show_nat n) = show_nat n"
    then show ?thesis using show_nat_digits [of n] by simp
  next
    assume "padStart2 (show_nat n) = CHR ''0'' # show_nat n"
    then show ?thesis using show_nat_digits [of n] zero by simp
  qed
qed


lemma digits_value_padStart2: "digits_value 10 (padStart2 (show_nat n)) = int n"
  using padStart2_show_nat_cases [of n]
  by (auto simp: digits_value_zero_prefix digits_value_show_nat)

lemma padStart2_show_nat_inj: "padStart2 (show_nat a) = padStart2 (show_nat b) \<Longrightarrow> a = b"
  by (metis digits_value_padStart2 of_nat_eq_iff)

lemma show_int_inj: "show_int a = show_int b \<Longrightarrow> a = b"
proof -
  assume eq: "show_int a = show_int b"
  have first: "hd (show_digits n) \<noteq> CHR ''-''" if "0 \<le> n" for n
    using show_digits_digits [OF that] show_digits_nonempty [of n] is_digit_not_dash
    by (cases "show_digits n") auto
  have nonneg: "0 \<le> i \<Longrightarrow> hd (show_int i) \<noteq> CHR ''-''" for i
    using first by (simp add: show_int_def)
  have neg: "i < 0 \<Longrightarrow> hd (show_int i) = CHR ''-''" for i
    by (simp add: show_int_def)
  consider "a < 0" "b < 0" | "0 \<le> a" "0 \<le> b" | "a < 0" "0 \<le> b" | "0 \<le> a" "b < 0"
    by linarith
  then show ?thesis
  proof cases
    case 1
    with eq have "show_digits (- a) = show_digits (- b)" by (simp add: show_int_def)
    then have "digits_value 10 (show_digits (- a)) = digits_value 10 (show_digits (- b))" by simp
    with 1 show ?thesis by (simp add: digits_value_show_digits)
  next
    case 2
    with eq have "show_digits a = show_digits b" by (simp add: show_int_def)
    then have "digits_value 10 (show_digits a) = digits_value 10 (show_digits b)" by simp
    with 2 show ?thesis by (simp add: digits_value_show_digits)
  next
    case 3
    with eq neg [of a] nonneg [of b] show ?thesis by simp
  next
    case 4
    with eq neg [of b] nonneg [of a] show ?thesis by simp
  qed
qed




section \<open>Splitting\<close>




lemma append_sep_inj:
  assumes "xs @ c # ys = xs' @ c # ys'" and "c \<notin> set ys" and "c \<notin> set ys'"
  shows "xs = xs' \<and> ys = ys'"
proof -
  have tw: "takeWhile (\<lambda>x. x \<noteq> c) (rev zs @ c # rest) = rev zs" if "c \<notin> set zs" for zs rest
    using that by (auto simp: takeWhile_tail)
  have "rev (xs @ c # ys) = rev (xs' @ c # ys')" using assms(1) by simp
  then have "rev ys @ c # rev xs = rev ys' @ c # rev xs'" by simp
  then have "takeWhile (\<lambda>x. x \<noteq> c) (rev ys @ c # rev xs)
             = takeWhile (\<lambda>x. x \<noteq> c) (rev ys' @ c # rev xs')" by simp
  then have "rev ys = rev ys'" using tw assms(2,3) by simp
  then have "ys = ys'" by simp
  with assms(1) show ?thesis by simp
qed


section \<open>Dates as text\<close>







lemma formatDate_inj:
  assumes "formatDate (LocalDate y m d) = formatDate (LocalDate y' m' d')"
  shows "y = y' \<and> m = m' \<and> d = d'"
proof -
  have nd: "CHR ''-'' \<notin> set (padStart2 (show_nat n))" for n
    using padStart2_digits is_digit_not_dash by blast
  from assms have eq:
    "(show_int y @ CHR ''-'' # padStart2 (show_nat (m + 1))) @ CHR ''-'' # padStart2 (show_nat d)
     = (show_int y' @ CHR ''-'' # padStart2 (show_nat (m' + 1))) @ CHR ''-'' # padStart2 (show_nat d')"
    by (simp add: formatDate_def)
  from append_sep_inj [OF eq nd nd] have
    1: "show_int y @ CHR ''-'' # padStart2 (show_nat (m + 1))
        = show_int y' @ CHR ''-'' # padStart2 (show_nat (m' + 1))"
    and 2: "padStart2 (show_nat d) = padStart2 (show_nat d')" by auto
  from append_sep_inj [OF 1 nd nd] have
    3: "show_int y = show_int y'" and 4: "padStart2 (show_nat (m + 1)) = padStart2 (show_nat (m' + 1))"
    by auto
  from 2 3 4 show ?thesis
    using show_int_inj padStart2_show_nat_inj by fastforce
qed

section \<open>Normalising dates\<close>




section \<open>Counting the slots of a person\<close>

lemma categoryCount_sum:
  "categoryCount sched em k =
     sum_list (map (\<lambda>s. if heldBy s em \<and> getShiftTypeKey s = k then 1 else 0) sched)"
  by (induction sched) (auto simp: categoryCount_def)

lemma assignedHours_sum:
  "assignedHours sched em = sum_list (map (\<lambda>s. if heldBy s em then duration s else 0) sched)"
  by (induction sched) (auto simp: assignedHours_def)

lemma sum_list_map_update:
  "i < length xs \<Longrightarrow>
     sum_list (map f (xs[i := y])) = sum_list (map f xs) - f (xs ! i) + (f y :: int)"
proof (induction xs arbitrary: i)
  case Nil
  then show ?case by simp
next
  case (Cons x xs)
  then show ?case by (cases i) auto
qed

lemma heldBy_unique: "heldBy s em \<Longrightarrow> heldBy s em' \<Longrightarrow> em = em'"
  by (auto simp: heldBy_def split: option.splits)

lemma heldBy_assigned [simp]: "heldBy (s\<lparr>assignedPerson := Some p\<rparr>) em \<longleftrightarrow> email p = em"
  by (simp add: heldBy_def)

lemma heldBy_cost [simp]: "heldBy (s\<lparr>cost := c\<rparr>) em = heldBy s em"
  by (simp add: heldBy_def)

lemma key_assigned [simp]: "getShiftTypeKey (s\<lparr>assignedPerson := q\<rparr>) = getShiftTypeKey s"
  by (simp add: getShiftTypeKey_def)

lemma key_cost [simp]: "getShiftTypeKey (s\<lparr>cost := c\<rparr>) = getShiftTypeKey s"
  by (simp add: getShiftTypeKey_def)

lemma key_warning [simp]: "getShiftTypeKey (s\<lparr>warning := w\<rparr>) = getShiftTypeKey s"
  by (simp add: getShiftTypeKey_def)

lemma slotKey_updates [simp]:
  "slotKey (s\<lparr>assignedPerson := q\<rparr>) = slotKey s"
  "slotKey (s\<lparr>cost := c\<rparr>) = slotKey s"
  "slotKey (s\<lparr>warning := w\<rparr>) = slotKey s"
  by (simp_all add: slotKey_def)

text \<open>Giving the slot at \<open>i\<close> to \<open>p\<close> moves one slot of its category and its hours from
  the holder to \<open>p\<close>.\<close>

lemma categoryCount_reassign:
  assumes "i < length sched" and "heldBy (sched ! i) from"
  shows "categoryCount (sched[i := (sched ! i)\<lparr>assignedPerson := Some p\<rparr>]) em k =
           categoryCount sched em k
           - (if em = from \<and> getShiftTypeKey (sched ! i) = k then 1 else 0)
           + (if em = email p \<and> getShiftTypeKey (sched ! i) = k then 1 else 0)"
proof -
  have "heldBy (sched ! i) em \<longleftrightarrow> em = from"
    using assms(2) heldBy_unique by blast
  then show ?thesis
    unfolding categoryCount_sum using assms(1)
    by (auto simp: sum_list_map_update)
qed

lemma assignedHours_reassign:
  assumes "i < length sched" and "heldBy (sched ! i) from"
  shows "assignedHours (sched[i := (sched ! i)\<lparr>assignedPerson := Some p\<rparr>]) em =
           assignedHours sched em
           - (if em = from then duration (sched ! i) else 0)
           + (if em = email p then duration (sched ! i) else 0)"
proof -
  have "heldBy (sched ! i) em \<longleftrightarrow> em = from"
    using assms(2) heldBy_unique by blast
  then show ?thesis
    unfolding assignedHours_sum using assms(1)
    by (auto simp: sum_list_map_update)
qed

lemma categoryCount_append:
  "categoryCount (sched @ [s]) em k =
     categoryCount sched em k + (if heldBy s em \<and> getShiftTypeKey s = k then 1 else 0)"
  by (simp add: categoryCount_sum)

lemma assignedHours_append:
  "assignedHours (sched @ [s]) em = assignedHours sched em + (if heldBy s em then duration s else 0)"
  by (simp add: assignedHours_sum)

section \<open>Load records\<close>

lemma load_get_load_add:
  "load_get (load_add l k dc dh) k' = load_get l k' + (if k' = k then dc else 0)"
  by (cases k; cases k') auto

lemma total_hours_load_add: "total_hours (load_add l k dc dh) = total_hours l + dh"
  by (cases k) auto

lemma adjustLoad_apply:
  "adjustLoad load em k dc dh em' =
     (if em' = em then map_option (\<lambda>l. load_add l k dc dh) (load em) else load em')"
  by (auto simp: adjustLoad_def split: option.splits)

lemma dom_adjustLoad: "dom (adjustLoad load em k dc dh) = dom load"
  by (auto simp: adjustLoad_def split: option.splits)

section \<open>Moving a slot\<close>

lemma moveSlot_fields:
  assumes "moveSlot st load i from p = (st', load')"
  shows "people st' = people st" "preferences st' = preferences st"
    "length (schedule st') = length (schedule st)" "dom load' = dom load"
    "map slotKey (schedule st') = map slotKey (schedule st)"
    "schedule st' = (schedule st)[i := (schedule st ! i)\<lparr>assignedPerson := Some p\<rparr>]"
proof -
  from assms have st': "st' = st\<lparr>schedule := (schedule st)[i := (schedule st ! i)\<lparr>assignedPerson := Some p\<rparr>]\<rparr>"
    and load': "load' = adjustLoad (adjustLoad load from (getShiftTypeKey (schedule st ! i)) (- 1)
                           (- duration (schedule st ! i)))
                         (email p) (getShiftTypeKey (schedule st ! i)) 1 (duration (schedule st ! i))"
    by (auto simp: moveSlot_def Let_def)
  show "people st' = people st" "preferences st' = preferences st"
    "length (schedule st') = length (schedule st)"
    "schedule st' = (schedule st)[i := (schedule st ! i)\<lparr>assignedPerson := Some p\<rparr>]"
    by (simp_all add: st')
  show "dom load' = dom load" by (simp add: load' dom_adjustLoad)
  have "(map slotKey (schedule st))[i := slotKey (schedule st ! i)] = map slotKey (schedule st)"
    by (metis list_update_id map_update)
  then show "map slotKey (schedule st') = map slotKey (schedule st)"
    by (simp add: st' map_update)
qed

lemma moveSlot_loadExact:
  assumes ex: "loadExact (schedule st) load"
    and i: "i < length (schedule st)"
    and held: "heldBy (schedule st ! i) from"
    and mv: "moveSlot st load i from p = (st', load')"
  shows "loadExact (schedule st') load'"
  unfolding loadExact_def
proof (intro allI impI)
  fix em l'
  assume l': "load' em = Some l'"
  define sl where "sl = schedule st ! i"
  define k where "k = getShiftTypeKey sl"
  define mid where "mid = adjustLoad load from k (- 1) (- duration sl)"
  have load': "load' = adjustLoad mid (email p) k 1 (duration sl)"
    and sched': "schedule st' = (schedule st)[i := sl\<lparr>assignedPerson := Some p\<rparr>]"
    using mv by (auto simp: moveSlot_def Let_def sl_def k_def mid_def)
  have "dom load' = dom load" by (simp add: load' mid_def dom_adjustLoad)
  with l' have "em \<in> dom load" by auto
  then obtain l where l: "load em = Some l" by auto
  with ex have cnt: "\<And>k'. load_get l k' = categoryCount (schedule st) em k'"
    and hrs: "total_hours l = assignedHours (schedule st) em"
    by (auto simp: loadExact_def)
  have midv: "mid em = Some (if em = from then load_add l k (- 1) (- duration sl) else l)"
    using l by (auto simp: mid_def adjustLoad_apply)
  have l'v: "l' = (let m = (if em = from then load_add l k (- 1) (- duration sl) else l)
                   in if em = email p then load_add m k 1 (duration sl) else m)"
    using l' midv by (auto simp: load' adjustLoad_apply Let_def split: if_splits)
  show "(\<forall>k'. load_get l' k' = categoryCount (schedule st') em k')
        \<and> total_hours l' = assignedHours (schedule st') em"
    unfolding sched' sl_def
    using categoryCount_reassign [OF i held, of p em] assignedHours_reassign [OF i held, of p em]
    by (auto simp: l'v Let_def load_get_load_add total_hours_load_add cnt hrs k_def sl_def)
qed

lemma hasOtherSameDay_iff:
  "hasOtherSameDay st sl p \<longleftrightarrow>
     (\<exists>s \<in> set (schedule st). slot_id s \<noteq> slot_id sl \<and> heldBy s (email p) \<and> dateStr s = dateStr sl)"
  by (simp add: hasOtherSameDay_def list_ex_iff)

lemma distinct_keys_ids:
  assumes "distinct (map slotKey sched)" and "i < length sched" and "j < length sched"
    and "i \<noteq> j" and "dateStr (sched ! i) = dateStr (sched ! j)"
  shows "slot_id (sched ! i) \<noteq> slot_id (sched ! j)"
proof
  assume "slot_id (sched ! i) = slot_id (sched ! j)"
  with assms(5) have "map slotKey sched ! i = map slotKey sched ! j"
    using assms(2,3) by (simp add: slotKey_def)
  with assms(1-4) show False by (auto simp: distinct_conv_nth)
qed

lemma moveSlot_noDouble:
  assumes keys: "distinct (map slotKey (schedule st))"
    and nd: "noDoubleBooking (schedule st)"
    and i: "i < length (schedule st)"
    and free: "\<not> hasOtherSameDay st (schedule st ! i) p"
    and mv: "moveSlot st load i from p = (st', load')"
  shows "noDoubleBooking (schedule st')"
proof -
  define sched where "sched = schedule st"
  have sched': "schedule st' = sched[i := (sched ! i)\<lparr>assignedPerson := Some p\<rparr>]"
    using moveSlot_fields(6) [OF mv] by (simp add: sched_def)
  have other: "\<not> heldBy (sched ! j) (email p)"
    if "j < length sched" "j \<noteq> i" "dateStr (sched ! j) = dateStr (sched ! i)" for j
  proof
    assume h: "heldBy (sched ! j) (email p)"
    from distinct_keys_ids [OF keys [folded sched_def] that(1) i [folded sched_def] that(2,3)]
    have "slot_id (sched ! j) \<noteq> slot_id (sched ! i)" .
    with h that have "hasOtherSameDay st (sched ! i) p"
      unfolding hasOtherSameDay_iff sched_def by (metis nth_mem)
    with free show False by (simp add: sched_def)
  qed
  show ?thesis
    unfolding noDoubleBooking_def sched'
  proof (intro allI impI)
    fix a b em
    assume a: "a < length (sched[i := (sched ! i)\<lparr>assignedPerson := Some p\<rparr>])"
      and b: "b < length (sched[i := (sched ! i)\<lparr>assignedPerson := Some p\<rparr>])"
      and ab: "a \<noteq> b"
      and h: "heldBy (sched[i := (sched ! i)\<lparr>assignedPerson := Some p\<rparr>] ! a) em
              \<and> heldBy (sched[i := (sched ! i)\<lparr>assignedPerson := Some p\<rparr>] ! b) em"
    show "dateStr (sched[i := (sched ! i)\<lparr>assignedPerson := Some p\<rparr>] ! a)
          \<noteq> dateStr (sched[i := (sched ! i)\<lparr>assignedPerson := Some p\<rparr>] ! b)"
    proof (cases "a = i")
      case True
      with ab have bi: "b \<noteq> i" by simp
      from True h a have "em = email p" by simp
      with h bi b have "heldBy (sched ! b) (email p)" by simp
      with other [of b] b bi True a show ?thesis by auto
    next
      case False
      show ?thesis
      proof (cases "b = i")
        case True
        from True h b have "em = email p" by simp
        with h False a have "heldBy (sched ! a) (email p)" by simp
        with other [of a] a False True b show ?thesis by auto
      next
        case bi: False
        from nd [unfolded noDoubleBooking_def, folded sched_def, rule_format, of a b em]
          a b ab h False bi
        show ?thesis by simp
      qed
    qed
  qed
qed

text \<open>Moving a slot to somebody who holds no other slot that day, from its holder, keeps
  the invariant of the run.\<close>

lemma moveSlot_runInv:
  assumes inv: "runInv st load"
    and i: "i < length (schedule st)"
    and held: "heldBy (schedule st ! i) from"
    and free: "\<not> hasOtherSameDay st (schedule st ! i) p"
    and mv: "moveSlot st load i from p = (st', load')"
  shows "runInv st' load'"
  using inv moveSlot_fields [OF mv] moveSlot_loadExact [OF _ i held mv]
    moveSlot_noDouble [OF _ _ i free mv]
  by (simp add: runInv_def)

section \<open>A step of the optimizer\<close>

lemma setCost_runInv:
  assumes inv: "runInv st load"
  shows "runInv (setCost st i c) load"
proof -
  define sched where "sched = schedule st"
  define sched' where "sched' = sched[i := (sched ! i)\<lparr>cost := Some c\<rparr>]"
  have nth: "heldBy (sched' ! j) em = heldBy (sched ! j) em"
    "getShiftTypeKey (sched' ! j) = getShiftTypeKey (sched ! j)"
    "duration (sched' ! j) = duration (sched ! j)"
    "dateStr (sched' ! j) = dateStr (sched ! j)"
    "slotKey (sched' ! j) = slotKey (sched ! j)" if "j < length sched" for j em
    using that by (cases "j = i"; simp add: sched'_def)+
  have len: "length sched' = length sched" by (simp add: sched'_def)
  have maps: "map f sched' = map f sched"
    if "\<And>j. j < length sched \<Longrightarrow> f (sched' ! j) = f (sched ! j)" for f :: "slot \<Rightarrow> 'b"
    using that len by (intro nth_equalityI) auto
  have cc: "categoryCount sched' em k = categoryCount sched em k" for em k
    unfolding categoryCount_sum by (rule arg_cong [where f = sum_list], rule maps) (simp add: nth)
  have ah: "assignedHours sched' em = assignedHours sched em" for em
    unfolding assignedHours_sum by (rule arg_cong [where f = sum_list], rule maps) (simp add: nth)
  have keys: "map slotKey sched' = map slotKey sched" by (rule maps) (simp add: nth)
  have nd: "noDoubleBooking sched' = noDoubleBooking sched"
    unfolding noDoubleBooking_def len by (auto simp: nth)
  have "schedule (setCost st i c) = sched'" "people (setCost st i c) = people st"
    by (simp_all add: setCost_def sched'_def sched_def)
  with inv show ?thesis
    by (simp add: runInv_def loadExact_def cc ah keys nd sched_def [symmetric])
qed

lemma findSwap_Some:
  "findSwap tgs st load sl cur cc ps = Inr (Some (p, c)) \<Longrightarrow>
     p \<in> set ps \<and> \<not> hasOtherSameDay st sl p \<and> load (email p) \<noteq> None"
proof (induction ps)
  case Nil
  then show ?case by simp
next
  case (Cons q qs)
  then show ?case
    by (auto simp: Let_def split: if_splits option.splits sum.splits)
qed

lemma optimizeSlot_cases:
  assumes "optimizeSlot tgs st load i = Inr (st', load', changed)"
  shows "(st' = st \<and> load' = load)
         \<or> (\<exists>cur p c s1. assignedPerson (schedule st ! i) = Some cur
               \<and> \<not> hasOtherSameDay st (schedule st ! i) p
               \<and> moveSlot st load i (email cur) p = (s1, load')
               \<and> st' = setCost s1 i c)"
  using assms
  by (auto simp: optimizeSlot_def Let_def dest!: findSwap_Some
      split: option.splits sum.splits if_splits prod.splits)

lemma optimizeSlot_runInv:
  assumes inv: "runInv st load" and i: "i < length (schedule st)"
    and step: "optimizeSlot tgs st load i = Inr (st', load', changed)"
  shows "runInv st' load' \<and> people st' = people st
         \<and> length (schedule st') = length (schedule st)"
proof -
  from optimizeSlot_cases [OF step] show ?thesis
  proof
    assume "st' = st \<and> load' = load"
    with inv show ?thesis by simp
  next
    assume "\<exists>cur p c s1. assignedPerson (schedule st ! i) = Some cur
               \<and> \<not> hasOtherSameDay st (schedule st ! i) p
               \<and> moveSlot st load i (email cur) p = (s1, load')
               \<and> st' = setCost s1 i c"
    then obtain cur p c s1 where cur: "assignedPerson (schedule st ! i) = Some cur"
      and free: "\<not> hasOtherSameDay st (schedule st ! i) p"
      and mv: "moveSlot st load i (email cur) p = (s1, load')"
      and st': "st' = setCost s1 i c" by blast
    from cur have held: "heldBy (schedule st ! i) (email cur)" by (simp add: heldBy_def)
    from moveSlot_runInv [OF inv i held free mv] have "runInv s1 load'" .
    then have "runInv st' load'" unfolding st' by (rule setCost_runInv)
    moreover have "people st' = people st" "length (schedule st') = length (schedule st)"
      using moveSlot_fields [OF mv] by (simp_all add: st' setCost_def)
    ultimately show ?thesis by simp
  qed
qed

section \<open>A step of the balancer\<close>

lemma slotsOf_mem:
  "i \<in> set (slotsOf st p k) \<longleftrightarrow>
     i < length (schedule st) \<and> heldBy (schedule st ! i) (email p)
     \<and> getShiftTypeKey (schedule st ! i) = k"
  by (auto simp: slotsOf_def)

lemma pickRecipient_Some:
  assumes "pickRecipient st sl rs = Some p"
  shows "p \<in> set rs \<and> \<not> hasOtherSameDay st sl p"
proof -
  define cands where
    "cands = sortBy (\<lambda>a b. balanceScore st sl a - balanceScore st sl b)
               (filter (\<lambda>p. \<not> hasOtherSameDay st sl p) rs)"
  from assms have "p \<in> set cands"
    by (auto simp: pickRecipient_def cands_def [symmetric] Let_def
        split: option.splits list.splits dest: find_Some_iff [THEN iffD1] simp: in_set_conv_nth)
  then show ?thesis by (simp add: cands_def set_sortBy)
qed

lemma directForSlots_Some:
  "directForSlots st rs idxs = Some (i, p) \<Longrightarrow>
     i \<in> set idxs \<and> p \<in> set rs \<and> \<not> hasOtherSameDay st (schedule st ! i) p"
  by (induction idxs) (auto split: option.splits dest: pickRecipient_Some)

lemma directForDonors_Some:
  "directForDonors st k rs ds = Some (f, i, p) \<Longrightarrow>
     f \<in> set ds \<and> i \<in> set (slotsOf st f k) \<and> p \<in> set rs
     \<and> \<not> hasOtherSameDay st (schedule st ! i) p"
  by (induction ds) (auto split: option.splits dest: directForSlots_Some)

lemma find_Some_mem: "find P xs = Some x \<Longrightarrow> x \<in> set xs \<and> P x"
  by (induction xs) (auto split: if_splits)

lemma triangleForIntSlots_Some:
  "triangleForIntSlots st rs js = Some (j, r) \<Longrightarrow>
     j \<in> set js \<and> r \<in> set rs \<and> \<not> hasOtherSameDay st (schedule st ! j) r"
  by (induction js) (auto split: option.splits dest: find_Some_mem)

lemma triangleForIntermediaries_Some:
  "triangleForIntermediaries st k rs donorSlot ims = Some (im, j, r) \<Longrightarrow>
     im \<in> set ims \<and> \<not> hasOtherSameDay st donorSlot im
     \<and> j \<in> set (slotsOf st im k) \<and> dateStr (schedule st ! j) \<noteq> dateStr donorSlot
     \<and> r \<in> set rs \<and> \<not> hasOtherSameDay st (schedule st ! j) r"
  by (induction ims) (auto split: option.splits if_splits dest!: triangleForIntSlots_Some)

lemma triangleForDonorSlots_Some:
  "triangleForDonorSlots st k rs ims idxs = Some (i, im, j, r) \<Longrightarrow>
     i \<in> set idxs \<and> im \<in> set ims \<and> \<not> hasOtherSameDay st (schedule st ! i) im
     \<and> j \<in> set (slotsOf st im k) \<and> dateStr (schedule st ! j) \<noteq> dateStr (schedule st ! i)
     \<and> r \<in> set rs \<and> \<not> hasOtherSameDay st (schedule st ! j) r"
  by (induction idxs) (auto split: option.splits dest!: triangleForIntermediaries_Some)

lemma triangleForDonors_Some:
  "triangleForDonors st k counts mn mx rs ds = Some (d, i, im, j, r) \<Longrightarrow>
     d \<in> set ds \<and> i \<in> set (slotsOf st d k)
     \<and> email im \<noteq> email d \<and> (\<forall>r' \<in> set rs. email r' \<noteq> email im)
     \<and> \<not> hasOtherSameDay st (schedule st ! i) im
     \<and> j \<in> set (slotsOf st im k) \<and> dateStr (schedule st ! j) \<noteq> dateStr (schedule st ! i)
     \<and> r \<in> set rs \<and> \<not> hasOtherSameDay st (schedule st ! j) r"
proof (induction ds)
  case Nil
  then show ?case by simp
next
  case (Cons d0 ds)
  show ?case
  proof (cases "triangleForDonorSlots st k rs
                  (map fst (filter (\<lambda>(p, pCount). email p \<noteq> email d0
                       \<and> \<not> list_ex (\<lambda>r. email r = email p) rs
                       \<and> mn \<le> pCount \<and> pCount \<le> mx) counts)) (slotsOf st d0 k)")
    case None
    with Cons show ?thesis by (auto simp: Let_def)
  next
    case (Some x)
    with Cons.prems have x: "x = (i, im, j, r)" and d: "d = d0" by (auto simp: Let_def)
    from triangleForDonorSlots_Some [OF Some [unfolded x]] show ?thesis
      by (auto simp: d list_ex_iff)
  qed
qed

lemma balanceStep_cases:
  assumes "balanceStep st load k = Inr (Some (st', load'))"
  shows "(\<exists>fm i p. heldBy (schedule st ! i) fm \<and> i < length (schedule st)
            \<and> \<not> hasOtherSameDay st (schedule st ! i) p
            \<and> moveSlot st load i fm p = (st', load'))
         \<or> (\<exists>dm i im j r s1 l1.
               i < length (schedule st) \<and> heldBy (schedule st ! i) dm
             \<and> email im \<noteq> dm \<and> email r \<noteq> email im
             \<and> \<not> hasOtherSameDay st (schedule st ! i) im
             \<and> j < length (schedule st) \<and> heldBy (schedule st ! j) (email im)
             \<and> \<not> hasOtherSameDay st (schedule st ! j) r
             \<and> moveSlot st load i dm im = (s1, l1)
             \<and> moveSlot s1 l1 j (email im) r = (st', load'))"
proof -
  from assms obtain c0 cs where cs: "mapE (getCount load k) (people st) = Inr (c0 # cs)"
    by (auto simp: balanceStep_def split: sum.splits list.splits)
  define counts where "counts = zip (people st) (c0 # cs)"
  define mn where "mn = fold min cs c0"
  define mx where "mx = fold max cs c0"
  define donors where "donors = map fst (filter (\<lambda>(p, c). c = mx) counts)"
  define recipients where "recipients = map fst (filter (\<lambda>(p, c). c = mn) counts)"
  have unfolded: "balanceStep st load k =
    (if mx - mn \<le> 1 then Inr None
     else case directForDonors st k recipients donors of
            Some (fromPerson, i, toPerson) \<Rightarrow>
              (if load (email fromPerson) = None \<or> load (email toPerson) = None
               then Inl TypeError
               else Inr (Some (moveSlot st load i (email fromPerson) toPerson)))
          | None \<Rightarrow>
              (case triangleForDonors st k counts mn mx recipients donors of
                 None \<Rightarrow> Inr None
               | Some (donor, i, intermediary, j, recipient) \<Rightarrow>
                   (if load (email donor) = None \<or> load (email intermediary) = None
                       \<or> load (email recipient) = None
                    then Inl TypeError
                    else (let (st1, load1) = moveSlot st load i (email donor) intermediary
                          in Inr (Some (moveSlot st1 load1 j (email intermediary) recipient))))))"
    unfolding balanceStep_def cs counts_def mn_def mx_def donors_def recipients_def Let_def
    by simp
  show ?thesis
  proof (cases "directForDonors st k recipients donors")
    case (Some x)
    obtain f i p where x: "x = (f, i, p)" by (cases x)
    from assms Some x have mv: "moveSlot st load i (email f) p = (st', load')"
      unfolding unfolded by (auto split: if_splits)
    from directForDonors_Some [OF Some [unfolded x]] mv show ?thesis
      by (intro disjI1 exI [of _ "email f"] exI [of _ i] exI [of _ p]) (simp add: slotsOf_mem)
  next
    case None
    note noDirect = None
    show ?thesis
    proof (cases "triangleForDonors st k counts mn mx recipients donors")
      case None
      with assms noDirect show ?thesis unfolding unfolded by (simp split: if_splits)
    next
      case (Some y)
      obtain d i im j r where y: "y = (d, i, im, j, r)" by (metis prod_cases5)
      obtain s1 l1 where m1: "moveSlot st load i (email d) im = (s1, l1)"
        by (cases "moveSlot st load i (email d) im")
      from assms noDirect Some y m1 have m2: "moveSlot s1 l1 j (email im) r = (st', load')"
        unfolding unfolded by (simp split: if_splits)
      from triangleForDonors_Some [OF Some [unfolded y]] m1 m2 show ?thesis
        by (intro disjI2 exI [of _ "email d"] exI [of _ i] exI [of _ im] exI [of _ j]
            exI [of _ r] exI [of _ s1] exI [of _ l1]) (auto simp: slotsOf_mem)
    qed
  qed
qed

lemma balanceStep_runInv:
  assumes inv: "runInv st load"
    and step: "balanceStep st load k = Inr (Some (st', load'))"
  shows "runInv st' load' \<and> people st' = people st
         \<and> length (schedule st') = length (schedule st)"
proof -
  from balanceStep_cases [OF step] show ?thesis
  proof (elim disjE exE conjE)
    fix fm i p
    assume h: "heldBy (schedule st ! i) fm" and i: "i < length (schedule st)"
      and f: "\<not> hasOtherSameDay st (schedule st ! i) p"
      and mv: "moveSlot st load i fm p = (st', load')"
    from moveSlot_runInv [OF inv i h f mv] moveSlot_fields [OF mv] show ?thesis by simp
  next
    fix dm i im j r s1 l1
    assume i: "i < length (schedule st)" and hi: "heldBy (schedule st ! i) dm"
      and imd: "email im \<noteq> dm" and rim: "email r \<noteq> email im"
      and fi: "\<not> hasOtherSameDay st (schedule st ! i) im"
      and j: "j < length (schedule st)" and hj: "heldBy (schedule st ! j) (email im)"
      and fj: "\<not> hasOtherSameDay st (schedule st ! j) r"
      and m1: "moveSlot st load i dm im = (s1, l1)"
      and m2: "moveSlot s1 l1 j (email im) r = (st', load')"
    from moveSlot_runInv [OF inv i hi fi m1] have inv1: "runInv s1 l1" .
    note f1 = moveSlot_fields [OF m1]
    have ij: "i \<noteq> j" using hi hj imd heldBy_unique by blast
    have s1j: "schedule s1 ! j = schedule st ! j" using ij by (simp add: f1(6))
    have j1: "j < length (schedule s1)" using j by (simp add: f1(3))
    have hj1: "heldBy (schedule s1 ! j) (email im)" using hj by (simp add: s1j)
    have fj1: "\<not> hasOtherSameDay s1 (schedule s1 ! j) r"
    proof
      assume "hasOtherSameDay s1 (schedule s1 ! j) r"
      then obtain s where s: "s \<in> set (schedule s1)" "slot_id s \<noteq> slot_id (schedule st ! j)"
        "heldBy s (email r)" "dateStr s = dateStr (schedule st ! j)"
        unfolding hasOtherSameDay_iff s1j by blast
      from s(1) obtain a where a: "a < length (schedule st)" "s = schedule s1 ! a"
        by (auto simp: in_set_conv_nth f1(3))
      show False
      proof (cases "a = i")
        case True
        with a i have "heldBy s (email r) \<longleftrightarrow> email im = email r" by (simp add: f1(6))
        with s(3) rim show False by simp
      next
        case False
        with a have "s = schedule st ! a" by (simp add: f1(6))
        with a s have "hasOtherSameDay st (schedule st ! j) r"
          unfolding hasOtherSameDay_iff by (metis nth_mem)
        with fj show False by simp
      qed
    qed
    from moveSlot_runInv [OF inv1 j1 hj1 fj1 m2] have "runInv st' load'" .
    moreover note f2 = moveSlot_fields [OF m2]
    ultimately show ?thesis using f1 f2 by simp
  qed
qed

section \<open>The initial fill keeps the invariant\<close>

lemma getSameDayShifts_empty:
  "getSameDayShifts st p sl = [] \<longleftrightarrow>
     (\<forall>s \<in> set (schedule st). \<not> (heldBy s (email p) \<and> dateStr s = dateStr sl))"
  by (simp add: getSameDayShifts_def filter_empty_conv)

lemma assignSlot_runInv:
  assumes inv: "runInv st load"
    and fresh: "slotKey sl \<notin> set (map slotKey (schedule st))"
    and step: "assignSlot tgs st load sl = Inr (st', load')"
  shows "runInv st' load' \<and> people st' = people st
         \<and> map slotKey (schedule st') = map slotKey (schedule st) @ [slotKey sl]"
proof -
  from assignSlot_Inr [OF step] obtain p w where
    p: "p \<in> set (people st)" and free: "getSameDayShifts st p sl = []"
    and lp: "load (email p) \<noteq> None"
    and st': "st' = st\<lparr>schedule := schedule st @ [sl\<lparr>warning := w, assignedPerson := Some p, cost := None\<rparr>]\<rparr>"
    and load': "load' = adjustLoad load (email p) (getShiftTypeKey sl) 1 (duration sl)"
    by blast
  define new where "new = sl\<lparr>warning := w, assignedPerson := Some p, cost := None\<rparr>"
  have new: "heldBy new em \<longleftrightarrow> email p = em" "getShiftTypeKey new = getShiftTypeKey sl"
    "duration new = duration sl" "dateStr new = dateStr sl" "slotKey new = slotKey sl" for em
    by (simp_all add: new_def heldBy_def getShiftTypeKey_def slotKey_def)
  have sched': "schedule st' = schedule st @ [new]" by (simp add: st' new_def)
  from inv have keys: "distinct (map slotKey (schedule st))" and nd: "noDoubleBooking (schedule st)"
    and ex: "loadExact (schedule st) load" and dom: "email ` set (people st) \<subseteq> dom load"
    by (auto simp: runInv_def)
  have keys': "distinct (map slotKey (schedule st'))"
    using keys fresh by (simp add: sched' new)
  have nd': "noDoubleBooking (schedule st')"
    unfolding noDoubleBooking_def sched'
  proof (intro allI impI)
    fix a b em
    assume a: "a < length (schedule st @ [new])" and b: "b < length (schedule st @ [new])"
      and ab: "a \<noteq> b"
      and h: "heldBy ((schedule st @ [new]) ! a) em \<and> heldBy ((schedule st @ [new]) ! b) em"
    have last: "\<not> (heldBy (schedule st ! c) (email p) \<and> dateStr (schedule st ! c) = dateStr sl)"
      if "c < length (schedule st)" for c
      using free that unfolding getSameDayShifts_empty by (metis nth_mem)
    consider "a < length (schedule st)" "b < length (schedule st)"
      | "a = length (schedule st)" "b < length (schedule st)"
      | "a < length (schedule st)" "b = length (schedule st)"
      using a b ab by (simp add: less_Suc_eq) linarith
    then show "dateStr ((schedule st @ [new]) ! a) \<noteq> dateStr ((schedule st @ [new]) ! b)"
    proof cases
      case 1
      with nd [unfolded noDoubleBooking_def, rule_format, of a b em] ab h show ?thesis
        by (simp add: nth_append)
    next
      case 2
      with h have "em = email p" "heldBy (schedule st ! b) em" by (simp_all add: nth_append new)
      with last [OF 2(2)] 2 show ?thesis by (auto simp: nth_append new)
    next
      case 3
      with h have "em = email p" "heldBy (schedule st ! a) em" by (simp_all add: nth_append new)
      with last [OF 3(1)] 3 show ?thesis by (auto simp: nth_append new)
    qed
  qed
  have ex': "loadExact (schedule st') load'"
    unfolding loadExact_def
  proof (intro allI impI)
    fix em l'
    assume l': "load' em = Some l'"
    have "dom load' = dom load" by (simp add: load' dom_adjustLoad)
    with l' obtain l where l: "load em = Some l" by (metis domD domI)
    with ex have cnt: "\<And>k'. load_get l k' = categoryCount (schedule st) em k'"
      and hrs: "total_hours l = assignedHours (schedule st) em"
      by (auto simp: loadExact_def)
    have "l' = (if em = email p then load_add l (getShiftTypeKey sl) 1 (duration sl) else l)"
      using l' l by (auto simp: load' adjustLoad_apply split: if_splits)
    then show "(\<forall>k'. load_get l' k' = categoryCount (schedule st') em k')
               \<and> total_hours l' = assignedHours (schedule st') em"
      by (auto simp: sched' categoryCount_append assignedHours_append new load_get_load_add
          total_hours_load_add cnt hrs)
  qed
  have "email ` set (people st') \<subseteq> dom load'"
    using dom by (simp add: st' load' dom_adjustLoad)
  with keys' nd' ex' show ?thesis
    by (simp add: runInv_def) (simp add: st' slotKey_def)
qed

lemma greedyFill_runInv:
  assumes "runInv st load"
    and "distinct (map slotKey (schedule st) @ map slotKey sls)"
    and "greedyFill tgs sls st load = (r, st', load')"
  shows "runInv st' load' \<and> people st' = people st"
  using assms
proof (induction sls arbitrary: st load)
  case Nil
  then show ?case by simp
next
  case (Cons sl sls)
  show ?case
  proof (cases "assignSlot tgs st load sl")
    case (Inl e)
    with Cons.prems show ?thesis by simp
  next
    case (Inr x)
    obtain s1 l1 where x: "x = (s1, l1)" by (cases x)
    from Cons.prems(2) have fresh: "slotKey sl \<notin> set (map slotKey (schedule st))" by auto
    from assignSlot_runInv [OF Cons.prems(1) fresh Inr [unfolded x]]
    have 1: "runInv s1 l1" "people s1 = people st"
      "map slotKey (schedule s1) = map slotKey (schedule st) @ [slotKey sl]" by auto
    from Cons.prems(2) 1(3) have 2: "distinct (map slotKey (schedule s1) @ map slotKey sls)"
      by simp
    from Cons.prems(3) Inr x have 3: "greedyFill tgs sls s1 l1 = (r, st', load')" by simp
    from Cons.IH [OF 1(1) 2 3] 1(2) show ?thesis by simp
  qed
qed

section \<open>The generated slots are told apart by day and id\<close>

lemma getSlotLabel_inj: "i < 10 \<Longrightarrow> j < 10 \<Longrightarrow> getSlotLabel i = getSlotLabel j \<Longrightarrow> i = j"
  by (simp add: getSlotLabel_def char_of_quasi_inj)

lemma date_le_LocalDate: "date_le a b \<Longrightarrow> a \<noteq> InvalidDate \<and> b \<noteq> InvalidDate"
  by (cases a; cases b) auto

lemma date_le_trans: "date_le a b \<Longrightarrow> date_le b c \<Longrightarrow> date_le a c"
  by (cases a; cases b; cases c) auto

lemma date_le_next_day: "a \<noteq> InvalidDate \<Longrightarrow> date_le a (next_day a)"
  by (cases a) auto

lemma next_day_not_le: "\<not> date_le (next_day a) a"
  by (cases a) auto

lemma generateDatesFrom_lower:
  "d \<in> set (generateDatesFrom c e) \<Longrightarrow> date_le c d"
proof (induction c e rule: generateDatesFrom.induct)
  case (1 current endDate)
  show ?case
  proof (cases "date_le current endDate")
    case False
    with 1 show ?thesis by (simp add: generateDatesFrom.simps [of current endDate])
  next
    case True
    then have valid: "current \<noteq> InvalidDate" using date_le_LocalDate by blast
    from 1(2) True have "d = current \<or> d \<in> set (generateDatesFrom (next_day current) endDate)"
      by (simp add: generateDatesFrom.simps [of current endDate])
    then show ?thesis
    proof
      assume "d = current"
      with valid show ?thesis by (cases current) auto
    next
      assume "d \<in> set (generateDatesFrom (next_day current) endDate)"
      with 1(1) True have "date_le (next_day current) d" by simp
      with date_le_next_day [OF valid] show ?thesis using date_le_trans by blast
    qed
  qed
qed

lemma distinct_generateDatesFrom: "distinct (generateDatesFrom c e)"
proof (induction c e rule: generateDatesFrom.induct)
  case (1 current endDate)
  show ?case
  proof (cases "date_le current endDate")
    case False
    then show ?thesis by (simp add: generateDatesFrom.simps [of current endDate])
  next
    case True
    have "current \<notin> set (generateDatesFrom (next_day current) endDate)"
      using generateDatesFrom_lower next_day_not_le by blast
    with 1 True show ?thesis by (simp add: generateDatesFrom.simps [of current endDate])
  qed
qed

lemma generateDatesFrom_valid: "d \<in> set (generateDatesFrom c e) \<Longrightarrow> d \<noteq> InvalidDate"
  using generateDatesFrom_lower date_le_LocalDate by blast

lemma distinct_generateDates: "distinct (generateDates st)"
  by (simp add: generateDates_def distinct_generateDatesFrom split: option.splits)

lemma generateDates_valid: "d \<in> set (generateDates st) \<Longrightarrow> d \<noteq> InvalidDate"
  by (auto simp: generateDates_def split: option.splits dest: generateDatesFrom_valid)

lemma formatDate_inj_valid:
  "a \<noteq> InvalidDate \<Longrightarrow> b \<noteq> InvalidDate \<Longrightarrow> formatDate a = formatDate b \<Longrightarrow> a = b"
  by (cases a; cases b) (auto dest: formatDate_inj)

lemma daySlots_dateStr: "s \<in> set (daySlots st d) \<Longrightarrow> dateStr s = formatDate d"
  by (auto simp: daySlots_def Let_def)

lemma distinct_daySlots:
  assumes "primaryCount st \<le> 10" and "secondaryCount st \<le> 10"
  shows "distinct (map slotKey (daySlots st d))"
proof -
  have inj: "inj_on (\<lambda>i. (formatDate d, formatDate d @ tag @ getSlotLabel i)) {0..<n}"
    if "n \<le> 10" for n and tag :: string
  proof (rule inj_onI)
    fix x y
    assume "x \<in> {0..<n}" "y \<in> {0..<n}"
      and "(formatDate d, formatDate d @ tag @ getSlotLabel x)
           = (formatDate d, formatDate d @ tag @ getSlotLabel y)"
    with that have "x < 10" "y < 10" "getSlotLabel x = getSlotLabel y" by auto
    then show "x = y" by (rule getSlotLabel_inj)
  qed
  show ?thesis
    using assms inj [of "primaryCount st" "''-primary-''"]
      inj [of "secondaryCount st" "''-secondary-''"]
    by (auto simp: daySlots_def Let_def slotKey_def distinct_map comp_def)
qed

lemma distinct_days:
  assumes "distinct ds" and "\<forall>d \<in> set ds. d \<noteq> InvalidDate"
    and "primaryCount st \<le> 10" and "secondaryCount st \<le> 10"
  shows "distinct (map slotKey (concat (map (daySlots st) ds)))"
  using assms(1,2)
proof (induction ds)
  case Nil
  then show ?case by simp
next
  case (Cons d ds)
  have "slotKey s \<noteq> slotKey s'"
    if "s \<in> set (daySlots st d)" "s' \<in> set (concat (map (daySlots st) ds))" for s s'
  proof -
    from that(2) obtain d' where d': "d' \<in> set ds" "s' \<in> set (daySlots st d')" by auto
    with Cons.prems have "d \<noteq> d'" "d \<noteq> InvalidDate" "d' \<noteq> InvalidDate" by auto
    then have "formatDate d \<noteq> formatDate d'" using formatDate_inj_valid by blast
    with that(1) d'(2) show ?thesis by (auto simp: slotKey_def daySlots_dateStr)
  qed
  then have "slotKey ` set (daySlots st d)
             \<inter> slotKey ` set (concat (map (daySlots st) ds)) = {}" by blast
  then have "set (map slotKey (daySlots st d))
             \<inter> set (map slotKey (concat (map (daySlots st) ds))) = {}"
    by (simp only: set_map)
  moreover from Cons have "distinct (map slotKey (concat (map (daySlots st) ds)))" by simp
  ultimately show ?case
    using distinct_daySlots [OF assms(3,4), of d] by (simp del: set_map set_concat)
qed

lemma distinct_generateSlots:
  assumes "primaryCount st \<le> 10" and "secondaryCount st \<le> 10"
  shows "distinct (map slotKey (generateSlots st))"
  unfolding generateSlots_def
  using distinct_days [OF distinct_generateDates _ assms] generateDates_valid by blast

lemma distinct_map_insertBy:
  "distinct (map f (insertBy cmp x ys)) \<longleftrightarrow> f x \<notin> f ` set ys \<and> distinct (map f ys)"
  by (induction ys) (auto simp: set_insertBy)

lemma distinct_map_sortBy: "distinct (map f (sortBy cmp xs)) = distinct (map f xs)"
proof (induction xs)
  case Nil
  then show ?case by (simp add: sortBy_def)
next
  case (Cons x xs)
  have "sortBy cmp (x # xs) = insertBy cmp x (sortBy cmp xs)" by (simp add: sortBy_def)
  with Cons show ?case by (simp add: distinct_map_insertBy set_sortBy)
qed

lemma distinct_sorted_prefix:
  assumes "primaryCount st \<le> 10" and "secondaryCount st \<le> 10"
  shows "distinct (map slotKey (take n (sortBy slotCompare (generateSlots st))))"
proof -
  have "distinct (map slotKey (sortBy slotCompare (generateSlots st)))"
    using distinct_generateSlots [OF assms] by (simp add: distinct_map_sortBy)
  then show ?thesis by (simp add: take_map [symmetric] distinct_take)
qed

section \<open>Every point of a run satisfies the invariant\<close>

lemma initializeLoad_apply:
  "initializeLoad st em =
     (if em \<in> email ` set (people st)
      then Some \<lparr>weekday_primary = 0, weekend_primary = 0, weekday_secondary = 0,
                 weekend_secondary = 0, total_hours = 0\<rparr>
      else None)"
proof -
  have "fold (\<lambda>p m. m(email p \<mapsto> z)) ps m0 em
        = (if em \<in> email ` set ps then Some z else m0 em)" for ps :: "person list" and z :: load_rec and m0
    by (induction ps arbitrary: m0) auto
  then show ?thesis by (simp add: initializeLoad_def)
qed

lemma runInv_start: "runInv (st\<lparr>schedule := []\<rparr>) (initializeLoad st)"
proof -
  have "load_get \<lparr>weekday_primary = 0, weekend_primary = 0, weekday_secondary = 0,
                  weekend_secondary = 0, total_hours = 0\<rparr> k = 0" for k
    by (cases k) auto
  then show ?thesis
    by (auto simp: runInv_def noDoubleBooking_def loadExact_def initializeLoad_apply
        categoryCount_def assignedHours_def split: if_splits)
qed

lemma duringRun_runInv:
  assumes "primaryCount st \<le> 10" and "secondaryCount st \<le> 10"
    and "duringRun st (st', load')"
  shows "runInv st' load' \<and> people st' = people st"
  using assms(3)
proof (induction "(st', load')" arbitrary: st' load' rule: duringRun.induct)
  case (filling n r st1 load1)
  from greedyFill_runInv [OF runInv_start _ filling(1)] distinct_sorted_prefix [OF assms(1,2)]
  show ?case by simp
next
  case (swapping st1 load1 i st2 load2 changed)
  from swapping(2) optimizeSlot_runInv [OF _ swapping(3,4)] show ?case by simp
next
  case (balancing st1 load1 k st2 load2)
  from balancing(2) balanceStep_runInv [OF _ balancing(3)] show ?case by simp
qed

section \<open>The phases of the run stay within its points\<close>

lemma optimizeSlot_length:
  assumes "optimizeSlot tgs st load i = Inr (st', load', changed)"
  shows "length (schedule st') = length (schedule st)"
  using optimizeSlot_cases [OF assms] moveSlot_fields(3)
  by (fastforce simp: setCost_def)

lemma optimizePass_during:
  assumes "duringRun st (s1, l1)" and "\<forall>i \<in> set idxs. i < length (schedule s1)"
    and "optimizePass (calculateTargetShifts st) idxs s1 l1 b = (r, s2, l2, b')"
  shows "duringRun st (s2, l2)"
  using assms
proof (induction idxs arbitrary: s1 l1 b)
  case Nil
  then show ?case by simp
next
  case (Cons i idxs)
  show ?case
  proof (cases "optimizeSlot (calculateTargetShifts st) s1 l1 i")
    case (Inl e)
    with Cons.prems show ?thesis by simp
  next
    case (Inr x)
    obtain s l ch where x: "x = (s, l, ch)" by (cases x)
    from Cons.prems(2) have i: "i < length (schedule s1)" by simp
    from duringRun.swapping [OF Cons.prems(1) i Inr [unfolded x]] have d: "duringRun st (s, l)" .
    from optimizeSlot_length [OF Inr [unfolded x]] Cons.prems(2)
    have idx: "\<forall>i \<in> set idxs. i < length (schedule s)" by simp
    from Cons.prems(3) Inr x
    have "optimizePass (calculateTargetShifts st) idxs s l (b \<or> ch) = (r, s2, l2, b')" by simp
    from Cons.IH [OF d idx this] show ?thesis .
  qed
qed

lemma optimizeLoop_during:
  assumes "duringRun st (s1, l1)"
    and "optimizeLoop n (calculateTargetShifts st) s1 l1 = (r, s2, l2)"
  shows "duringRun st (s2, l2)"
  using assms
proof (induction n arbitrary: s1 l1)
  case 0
  then show ?case by simp
next
  case (Suc n)
  obtain r' s l b where
    pass: "optimizePass (calculateTargetShifts st) [0..<length (schedule s1)] s1 l1 False
           = (r', s, l, b)"
    by (metis prod_cases4)
  from optimizePass_during [OF Suc.prems(1) _ pass] have d: "duringRun st (s, l)" by simp
  show ?case
  proof (cases r')
    case (Some e)
    with Suc.prems(2) pass d show ?thesis by simp
  next
    case None
    show ?thesis
    proof (cases b)
      case True
      with Suc.prems(2) pass None have "optimizeLoop n (calculateTargetShifts st) s l = (r, s2, l2)"
        by simp
      from Suc.IH [OF d this] show ?thesis .
    next
      case False
      with Suc.prems(2) pass None d show ?thesis by simp
    qed
  qed
qed

lemma balanceLoop_during:
  assumes "duringRun st (s1, l1)" and "balanceLoop n k s1 l1 = (r, s2, l2)"
  shows "duringRun st (s2, l2)"
  using assms
proof (induction n arbitrary: s1 l1)
  case 0
  then show ?case by simp
next
  case (Suc n)
  show ?case
  proof (cases "balanceStep s1 l1 k")
    case (Inl e)
    with Suc.prems show ?thesis by simp
  next
    case (Inr x)
    show ?thesis
    proof (cases x)
      case None
      with Suc.prems Inr show ?thesis by simp
    next
      case (Some y)
      obtain s l where y: "y = (s, l)" by (cases y)
      from duringRun.balancing [OF Suc.prems(1) Inr [unfolded Some y]] have d: "duringRun st (s, l)" .
      from Suc.prems(2) Inr Some y have "balanceLoop n k s l = (r, s2, l2)" by simp
      from Suc.IH [OF d this] show ?thesis .
    qed
  qed
qed

lemma balanceTypes_during:
  assumes "duringRun st (s1, l1)" and "balanceTypes ks s1 l1 = (r, s2, l2)"
  shows "duringRun st (s2, l2)"
  using assms
proof (induction ks arbitrary: s1 l1)
  case Nil
  then show ?case by simp
next
  case (Cons k ks)
  obtain r' s l where loop: "balanceLoop 500 k s1 l1 = (r', s, l)" by (metis prod_cases3)
  from balanceLoop_during [OF Cons.prems(1) loop] have d: "duringRun st (s, l)" .
  show ?case
  proof (cases r')
    case (Some e)
    with Cons.prems(2) loop d show ?thesis by simp
  next
    case None
    with Cons.prems(2) loop have "balanceTypes ks s l = (r, s2, l2)" by simp
    from Cons.IH [OF d this] show ?thesis .
  qed
qed

text \<open>The schedule that \<open>generateSchedule\<close> returns is the one of the scheduler it
  leaves, at a point of the run.\<close>

lemma generateSchedule_during:
  assumes "generateSchedule st = (Inr (sched, rep), st')"
  shows "\<exists>load'. duringRun st (st', load') \<and> sched = schedule st'"
proof -
  define tgs where "tgs = calculateTargetShifts st"
  define sorted where "sorted = sortBy slotCompare (generateSlots st)"
  obtain r1 s1 l1 where
    fill: "greedyFill tgs sorted (st\<lparr>schedule := []\<rparr>) (initializeLoad st) = (r1, s1, l1)"
    by (metis prod_cases3)
  obtain r2 s2 l2 where opt: "optimizeWithSwaps tgs s1 l1 = (r2, s2, l2)" by (metis prod_cases3)
  obtain r3 s3 l3 where bal: "balanceShifts tgs s2 l2 = (r3, s3, l3)" by (metis prod_cases3)
  from assms fill opt bal have res: "r1 = None" "r2 = None" "r3 = None" "st' = s3" "sched = schedule s3"
    by (auto simp: generateSchedule_def Let_def tgs_def [symmetric] sorted_def [symmetric]
        split: if_splits option.splits sum.splits)
  have "greedyFill tgs (take (length sorted) sorted) (st\<lparr>schedule := []\<rparr>) (initializeLoad st)
        = (r1, s1, l1)" using fill by simp
  then have d1: "duringRun st (s1, l1)"
    unfolding tgs_def sorted_def by (rule duringRun.filling)
  from opt have "optimizeLoop 100 (calculateTargetShifts st) s1 l1 = (r2, s2, l2)"
    by (simp only: optimizeWithSwaps_def tgs_def)
  from optimizeLoop_during [OF d1 this] have d2: "duringRun st (s2, l2)" .
  from bal have "balanceTypes [Weekday_primary, Weekend_primary, Weekday_secondary,
                   Weekend_secondary] s2 l2 = (r3, s3, l3)"
    by (simp only: balanceShifts_def)
  from balanceTypes_during [OF d2 this] have "duringRun st (s3, l3)" .
  with res show ?thesis by auto
qed

section \<open>No double-booking\<close>

text \<open>
  C2. With the shift counts within the 10 that \<open>setShiftCounts\<close> allows, at every point of
  a run of \<open>generateSchedule\<close> (after each slot of the initial fill, after each step of
  the swap optimizer, after each move of the balancer) nobody holds two slots of the
  schedule whose calendar-day strings are equal; and so it is for the schedule that
  \<open>generateSchedule\<close> returns.
\<close>

theorem no_double_booking:
  assumes "primaryCount st \<le> 10" and "secondaryCount st \<le> 10"
  shows "(\<forall>st' load'. duringRun st (st', load') \<longrightarrow> noDoubleBooking (schedule st'))
         \<and> (\<forall>sched rep st'. generateSchedule st = (Inr (sched, rep), st') \<longrightarrow> noDoubleBooking sched)"
proof -
  have 1: "noDoubleBooking (schedule st')" if "duringRun st (st', load')" for st' load'
    using duringRun_runInv [OF assms that] by (simp add: runInv_def)
  moreover have "noDoubleBooking sched" if "generateSchedule st = (Inr (sched, rep), st')"
    for sched rep st'
    using generateSchedule_during [OF that] 1 by auto
  ultimately show ?thesis by blast
qed

text \<open>The run on the roster of two people: its initial fill is a point of the run, and
  \<open>generateSchedule\<close> returns a schedule.\<close>

lemma tiny_during: "duringRun tinyRoster tinyFill"
proof -
  obtain r s l where g:
    "greedyFill (calculateTargetShifts tinyRoster)
       (take 2 (sortBy slotCompare (generateSlots tinyRoster)))
       (tinyRoster\<lparr>schedule := []\<rparr>) (initializeLoad tinyRoster) = (r, s, l)"
    by (metis prod_cases3)
  then have "tinyFill = (s, l)" by (simp add: tinyFill_def)
  with duringRun.filling [OF g] show ?thesis by simp
qed

lemma tiny_returns: "\<exists>sched rep st'. generateSchedule tinyRoster = (Inr (sched, rep), st')"
proof -
  have "case generateSchedule tinyRoster of
          (Inl e, st') \<Rightarrow> False | (Inr r, st') \<Rightarrow> True"
    by code_simp
  then show ?thesis by (auto split: prod.splits sum.splits)
qed

lemma tiny_counts: "primaryCount tinyRoster \<le> 10" "secondaryCount tinyRoster \<le> 10"
  by (simp_all add: tinyRoster_def)

theorem no_double_booking_witness:
  "primaryCount tinyRoster \<le> 10 \<and> secondaryCount tinyRoster \<le> 10
   \<and> duringRun tinyRoster tinyFill \<and> noDoubleBooking (schedule (fst tinyFill))
   \<and> (\<exists>sched rep st'. generateSchedule tinyRoster = (Inr (sched, rep), st')
         \<and> noDoubleBooking sched)"
proof -
  from tiny_during have d: "duringRun tinyRoster (fst tinyFill, snd tinyFill)" by simp
  from no_double_booking [OF tiny_counts] d tiny_returns tiny_counts tiny_during
  show ?thesis by blast
qed

section \<open>The load map and the schedule\<close>

text \<open>
  C10. With the shift counts within the 10 that \<open>setShiftCounts\<close> allows, at every point of
  a run of \<open>generateSchedule\<close> (after each slot of the initial fill, after each step of
  the swap optimizer, after each transfer or triangle rotation of the balancer) the load
  map has a record for every person of the roster, the four counters of the record are
  the numbers of slots of each shift type that the person holds in the schedule at that
  point, and its \<open>total_hours\<close> is the sum of the durations of those slots.
\<close>

theorem load_map_consistent:
  assumes "primaryCount st \<le> 10" and "secondaryCount st \<le> 10"
  shows "\<forall>st' load'. duringRun st (st', load')
           \<longrightarrow> loadConsistent (people st) (schedule st') load'"
proof (intro allI impI)
  fix st' load'
  assume "duringRun st (st', load')"
  from duringRun_runInv [OF assms this]
  have inv: "runInv st' load'" and ppl: "people st' = people st"
    by blast+
  from inv have ex: "loadExact (schedule st') load'"
    and sub: "email ` set (people st') \<subseteq> dom load'"
    unfolding runInv_def by blast+
  show "loadConsistent (people st) (schedule st') load'"
    unfolding loadConsistent_def
  proof
    fix p
    assume "p \<in> set (people st)"
    with ppl have "email p \<in> email ` set (people st')" by simp
    with sub have "email p \<in> dom load'" by blast
    then obtain l where l: "load' (email p) = Some l" by blast
    with ex show "\<exists>l. load' (email p) = Some l
        \<and> (\<forall>k. load_get l k = categoryCount (schedule st') (email p) k)
        \<and> total_hours l = assignedHours (schedule st') (email p)"
      by (simp add: loadExact_def)
  qed
qed

theorem load_map_consistent_witness:
  "primaryCount tinyRoster \<le> 10 \<and> secondaryCount tinyRoster \<le> 10
   \<and> duringRun tinyRoster tinyFill
   \<and> loadConsistent (people tinyRoster) (schedule (fst tinyFill)) (snd tinyFill)
   \<and> categoryCount (schedule (fst tinyFill)) ''a'' Weekday_primary = 1
   \<and> map_option weekday_primary (snd tinyFill ''a'') = Some 1"
proof -
  from tiny_during have d: "duringRun tinyRoster (fst tinyFill, snd tinyFill)" by simp
  have c: "categoryCount (schedule (fst tinyFill)) ''a'' Weekday_primary = 1"
    by code_simp
  have m: "map_option weekday_primary (snd tinyFill ''a'') = Some 1"
    by code_simp
  from load_map_consistent [OF tiny_counts] d tiny_counts tiny_during c m
  show ?thesis by blast
qed

section \<open>Fairness of the returned schedule\<close>

text \<open>
  C1. On the roster \<open>unfairRoster\<close> the run of \<open>generateSchedule\<close> returns normally, and
  in the schedule it returns the numbers of weekday secondary slots held by \<open>a\<close> to \<open>f\<close>
  are 2, 0, 1, 1, 1, 1, which are also the numbers of the fairness report: the largest
  and the smallest count of that category differ by 2, although the category has six
  slots for six people.
\<close>

theorem fairness_gap_unfairRoster:
  "\<exists>sched rep st'. generateSchedule unfairRoster = (Inr (sched, rep), st')
     \<and> map (\<lambda>p. categoryCount sched (email p) Weekday_secondary) (people st') = [2, 0, 1, 1, 1, 1]
     \<and> map weekdaySecondary (byPerson rep) = [2, 0, 1, 1, 1, 1]"
proof -
  have "case generateSchedule unfairRoster of
          (Inl e, st') \<Rightarrow> False
        | (Inr (sched, rep), st') \<Rightarrow>
            map (\<lambda>p. categoryCount sched (email p) Weekday_secondary) (people st')
              = [2, 0, 1, 1, 1, 1]
            \<and> map weekdaySecondary (byPerson rep) = [2, 0, 1, 1, 1, 1]"
    by code_simp
  then show ?thesis by (auto split: prod.splits sum.splits)
qed

end
